theory Spec2Isabelle
  imports Complex_Main
begin

section \<open>Data model\<close>

text \<open>
  The shortcut record of \<^verbatim>\<open>backend.d.ts\<close> (\<^verbatim>\<open>interface App\<close>) and of
  \<^verbatim>\<open>main.mo\<close> (\<^verbatim>\<open>type App\<close>). The field \<^verbatim>\<open>id\<close> is written \<open>id_app\<close>
  because \<open>id\<close> is the identity function of HOL; \<^verbatim>\<open>order\<close> is a \<^verbatim>\<open>bigint\<close> in
  the frontend and a \<^verbatim>\<open>Nat\<close> in the backend.
\<close>

record App =
  id_app :: string
  url :: string
  order :: nat
  name :: string
  color :: string
  emoji :: string

record Settings =
  backgroundEffect :: string
  wallpaper :: string
  accentColor :: string
  showClock :: bool
  openInIframe :: bool
  taskbarPosition :: string

text \<open>
  \<^verbatim>\<open>interface OpenWindow { id: string; app: AppData; zIndex: number }\<close> of the shell.
  \<^verbatim>\<open>zIndex\<close> and the counter \<^verbatim>\<open>topZ\<close> are JavaScript numbers that start at 100 and grow by
  one per launch or focus; in that range number addition is integer addition, and they are
  modelled as integers.
\<close>

record OpenWindow =
  id_win :: string
  app :: App
  zIndex :: int

text \<open>\<^verbatim>\<open>type WindowPhase = "open" | "minimizing" | "minimized" | "restoring"\<close>.\<close>

datatype WindowPhase = Open | Minimizing | Minimized | Restoring

section \<open>The AppWindow component\<close>

text \<open>
  One mounted \<^verbatim>\<open>AppWindow\<close> holds two pieces of React state (\<^verbatim>\<open>pos\<close>, \<^verbatim>\<open>phase\<close>) and two
  refs (\<^verbatim>\<open>isDragging\<close>, \<^verbatim>\<open>dragOffset\<close>). Coordinates are JavaScript numbers; they are
  modelled as reals. \<^verbatim>\<open>Math.max\<close> and \<^verbatim>\<open>Math.min\<close> are exact; a subtraction may round,
  and the bounds proved below hold for every pointer position and every drag offset, so
  for every value the difference can take. The third piece of state,
  \<^verbatim>\<open>size = { w: 900, h: 580 }\<close>, has no setter and is a pair of constants.
\<close>

record Point =
  px :: real
  py :: real

record AppWindowState =
  pos :: Point
  phase :: WindowPhase
  isDragging :: bool
  dragOffset :: Point

definition size_w :: real where
  "size_w = 900"

definition size_h :: real where
  "size_h = 580"

text \<open>A mouse event as the handlers read it, and the viewport read from \<^verbatim>\<open>window\<close>.\<close>

record MouseEvent =
  clientX :: real
  clientY :: real

record Viewport =
  innerWidth :: real
  innerHeight :: real

text \<open>
  The initial state of a mounted window:
  \<^verbatim>\<open>initialPosition ?? { x: 80 + Math.random() * 200, y: 60 + Math.random() * 100 }\<close>,
  phase \<^verbatim>\<open>"open"\<close>, not dragging. The two draws of \<^verbatim>\<open>Math.random()\<close> are the argument
  \<open>rnd\<close>.
\<close>

definition mountAppWindow :: "Point option \<Rightarrow> Point \<Rightarrow> AppWindowState" where
  "mountAppWindow initialPosition rnd =
     \<lparr> pos = (case initialPosition of
                 Some p \<Rightarrow> p
               | None \<Rightarrow> \<lparr> px = 80 + px rnd * 200, py = 60 + py rnd * 100 \<rparr>),
       phase = Open,
       isDragging = False,
       dragOffset = \<lparr> px = 0, py = 0 \<rparr> \<rparr>"

text \<open>
  \<^verbatim>\<open>handleMouseDown\<close> sets the two refs; its call of \<^verbatim>\<open>onFocus()\<close> is made by the
  shell's step function below. (The press then bubbles to the dialog, whose own
  \<^verbatim>\<open>onMouseDown={onFocus}\<close> is one more \<open>Focus\<close> event.)
\<close>

definition handleMouseDown :: "MouseEvent \<Rightarrow> AppWindowState \<Rightarrow> AppWindowState" where
  "handleMouseDown e st =
     st\<lparr> isDragging := True,
         dragOffset := \<lparr> px = clientX e - px (pos st), py = clientY e - py (pos st) \<rparr> \<rparr>"

definition handleMouseMove :: "MouseEvent \<Rightarrow> Viewport \<Rightarrow> AppWindowState \<Rightarrow> AppWindowState" where
  "handleMouseMove e vp st =
     (if \<not> isDragging st then st
      else
        let newX = max 0 (min (clientX e - px (dragOffset st)) (innerWidth vp - size_w));
            newY = max 0 (min (clientY e - py (dragOffset st)) (innerHeight vp - size_h))
        in st\<lparr> pos := \<lparr> px = newX, py = newY \<rparr> \<rparr>)"

definition handleMouseUp :: "AppWindowState \<Rightarrow> AppWindowState" where
  "handleMouseUp st = st\<lparr> isDragging := False \<rparr>"

text \<open>
  \<^verbatim>\<open>handleMinimize\<close> and \<^verbatim>\<open>handleRestore\<close> set the phase and call \<^verbatim>\<open>setTimeout\<close>. The
  result is the new state together with the timeouts requested: the delay in milliseconds
  and the phase the callback will set.
\<close>

definition handleMinimize :: "AppWindowState \<Rightarrow> AppWindowState \<times> (nat \<times> WindowPhase) list" where
  "handleMinimize st = (st\<lparr> phase := Minimizing \<rparr>, [(260, Minimized)])"

definition handleRestore :: "AppWindowState \<Rightarrow> AppWindowState \<times> (nat \<times> WindowPhase) list" where
  "handleRestore st = (st\<lparr> phase := Restoring \<rparr>, [(320, Open)])"

definition setPhase :: "WindowPhase \<Rightarrow> AppWindowState \<Rightarrow> AppWindowState" where
  "setPhase p st = st\<lparr> phase := p \<rparr>"

text \<open>
  What the component renders: in phase \<^verbatim>\<open>"minimized"\<close> only the restore button, otherwise
  the dialog with its title bar, minimize button and close button.
\<close>

datatype Control = RestoreButton | TitleBar | MinimizeButton | CloseButton

definition rendered :: "AppWindowState \<Rightarrow> Control list" where
  "rendered st =
     (if phase st = Minimized then [RestoreButton]
      else [TitleBar, MinimizeButton, CloseButton])"

section \<open>The shell: window management\<close>

text \<open>
  \<^verbatim>\<open>app.id + Date.now()\<close> concatenates the shortcut id with the decimal digits of the
  clock, a non-negative integer.
\<close>

fun string_of_nat :: "nat \<Rightarrow> string" where
  "string_of_nat n =
     (if n < 10 then [''0123456789'' ! n]
      else string_of_nat (n div 10) @ [''0123456789'' ! (n mod 10)])"

declare string_of_nat.simps [simp del]

text \<open>
  A pending \<^verbatim>\<open>setTimeout\<close> callback \<^verbatim>\<open>() => setPhase(p)\<close>. The callback holds the state
  setter of one component instance: the instance rendered under React key \<open>target\<close> and
  mounted in render number \<open>inst\<close>.
\<close>

record Timer =
  target :: string
  inst :: nat
  delay :: nat
  setsPhase :: WindowPhase

text \<open>
  The state of \<^verbatim>\<open>App\<close> that window management reads and writes: the registry \<^verbatim>\<open>apps\<close>
  with its copy in \<^verbatim>\<open>localStorage\<close>, the settings, \<^verbatim>\<open>openWindows\<close> and \<^verbatim>\<open>topZ\<close>; the
  URLs handed to \<^verbatim>\<open>window.open\<close>; the mounted \<^verbatim>\<open>AppWindow\<close> instances by React key
  (\<^verbatim>\<open>key={w.id}\<close>), each with the number of the render that mounted it; and the pending
  timers.
\<close>

record Desktop =
  apps :: "App list"
  savedApps :: "App list"
  localSettings :: Settings
  openWindows :: "OpenWindow list"
  topZ :: int
  externalOpens :: "string list"
  mounted :: "string \<rightharpoonup> nat \<times> AppWindowState"
  renders :: nat
  timers :: "Timer list"

definition DEFAULT_SETTINGS :: Settings where
  "DEFAULT_SETTINGS =
     \<lparr> backgroundEffect = ''grid'', wallpaper = ''#050510'', accentColor = ''#00f5ff'',
       showClock = True, openInIframe = True, taskbarPosition = ''bottom'' \<rparr>"

text \<open>\<^verbatim>\<open>useState<OpenWindow[]>([])\<close> and \<^verbatim>\<open>useState(100)\<close>.\<close>

definition initialDesktop :: "App list \<Rightarrow> Settings \<Rightarrow> Desktop" where
  "initialDesktop as st =
     \<lparr> apps = as, savedApps = as, localSettings = st, openWindows = [], topZ = 100,
       externalOpens = [], mounted = Map.empty, renders = 0, timers = [] \<rparr>"

text \<open>
  \<^verbatim>\<open>launchApp\<close>. The handler is rebuilt whenever \<^verbatim>\<open>topZ\<close> changes, so the \<^verbatim>\<open>topZ\<close> it
  reads is the one of the latest render. \<open>now\<close> is the value of \<^verbatim>\<open>Date.now()\<close>.
\<close>

definition launchApp :: "App \<Rightarrow> nat \<Rightarrow> Desktop \<Rightarrow> Desktop" where
  "launchApp a now s =
     (if openInIframe (localSettings s) then
        (if find (\<lambda>w. id_app (app w) = id_app a) (openWindows s) \<noteq> None then
           let newZ = topZ s + 1
           in s\<lparr> topZ := newZ,
                 openWindows :=
                   map (\<lambda>w. if id_app (app w) = id_app a then w\<lparr> zIndex := newZ \<rparr> else w)
                     (openWindows s) \<rparr>
         else
           let newZ = topZ s + 1
           in s\<lparr> topZ := newZ,
                 openWindows :=
                   openWindows s @
                     [\<lparr> id_win = id_app a @ string_of_nat now, app = a, zIndex = newZ \<rparr>] \<rparr>)
      else s\<lparr> externalOpens := externalOpens s @ [url a] \<rparr>)"

definition closeWindow :: "string \<Rightarrow> Desktop \<Rightarrow> Desktop" where
  "closeWindow windowId s =
     s\<lparr> openWindows := filter (\<lambda>w. id_win w \<noteq> windowId) (openWindows s) \<rparr>"

definition focusWindow :: "string \<Rightarrow> Desktop \<Rightarrow> Desktop" where
  "focusWindow windowId s =
     (let newZ = topZ s + 1
      in s\<lparr> topZ := newZ,
            openWindows :=
              map (\<lambda>w. if id_win w = windowId then w\<lparr> zIndex := newZ \<rparr> else w)
                (openWindows s) \<rparr>)"

text \<open>
  \<^verbatim>\<open>handleDeleteApp\<close>: the registry is filtered and saved; the toast is not modelled.
\<close>

definition handleDeleteApp :: "string \<Rightarrow> Desktop \<Rightarrow> Desktop" where
  "handleDeleteApp appId s =
     (let next = filter (\<lambda>a. id_app a \<noteq> appId) (apps s)
      in s\<lparr> apps := next, savedApps := next \<rparr>)"

definition handleSettingsChange :: "Settings \<Rightarrow> Desktop \<Rightarrow> Desktop" where
  "handleSettingsChange newSettings s = s\<lparr> localSettings := newSettings \<rparr>"

subsection \<open>Rendering: mounting and unmounting\<close>

text \<open>
  \<^verbatim>\<open>openWindows.map((w) => <AppWindow key={w.id} ... />)\<close>: after a state change React
  keeps the instance of every key that is still rendered, unmounts the instances whose key
  is gone, and mounts a fresh instance for every new key.
\<close>

definition unmountClosed :: "Desktop \<Rightarrow> Desktop" where
  "unmountClosed s =
     s\<lparr> mounted := (\<lambda>k. if k \<in> set (map id_win (openWindows s)) then mounted s k else None) \<rparr>"

definition mountOpened :: "Point \<Rightarrow> Desktop \<Rightarrow> Desktop" where
  "mountOpened rnd s =
     s\<lparr> mounted :=
           (\<lambda>k. if k \<in> set (map id_win (openWindows s)) \<and> mounted s k = None
                then Some (renders s, mountAppWindow None rnd)
                else mounted s k),
         renders := renders s + 1 \<rparr>"

definition render :: "Point \<Rightarrow> Desktop \<Rightarrow> Desktop" where
  "render rnd s = mountOpened rnd (unmountClosed s)"

subsection \<open>Timers and events\<close>

text \<open>
  A handler of the window mounted under key \<open>k\<close> runs on that instance; the timeouts it
  requests are bound to the instance. Without an instance under \<open>k\<close> there is no handler to
  run.
\<close>

definition onWindow ::
  "string \<Rightarrow> (AppWindowState \<Rightarrow> AppWindowState \<times> (nat \<times> WindowPhase) list) \<Rightarrow> Desktop \<Rightarrow> Desktop"
where
  "onWindow k h s =
     (case mounted s k of
        None \<Rightarrow> s
      | Some (g, w) \<Rightarrow>
          (case h w of
             (w', reqs) \<Rightarrow>
               s\<lparr> mounted := (mounted s)(k \<mapsto> (g, w')),
                   timers := timers s @
                     map (\<lambda>(d, p). \<lparr> target = k, inst = g, delay = d, setsPhase = p \<rparr>) reqs \<rparr>))"

text \<open>
  The listeners on \<^verbatim>\<open>window\<close> (\<^verbatim>\<open>mousemove\<close>, \<^verbatim>\<open>mouseup\<close>) of every mounted instance.
\<close>

definition onAllWindows :: "(AppWindowState \<Rightarrow> AppWindowState) \<Rightarrow> Desktop \<Rightarrow> Desktop" where
  "onAllWindows h s =
     s\<lparr> mounted := (\<lambda>k. case mounted s k of None \<Rightarrow> None | Some (g, w) \<Rightarrow> Some (g, h w)) \<rparr>"

text \<open>
  Pending timer number \<open>i\<close> fires; the event says which one, so timers may fire in any
  order. React drops a state update of an instance that is no longer mounted, so the
  callback changes the phase only if the instance it was created for is still there.
\<close>

definition fireTimer :: "nat \<Rightarrow> Desktop \<Rightarrow> Desktop" where
  "fireTimer i s =
     (if i < length (timers s) then
        let t = timers s ! i;
            s' = s\<lparr> timers := take i (timers s) @ drop (Suc i) (timers s) \<rparr>
        in (case mounted s (target t) of
              None \<Rightarrow> s'
            | Some (g, w) \<Rightarrow>
                if g = inst t
                then s'\<lparr> mounted := (mounted s)(target t \<mapsto> (g, setPhase (setsPhase t) w)) \<rparr>
                else s')
      else s)"

datatype Event =
    Launch App nat Point
  | Close string
  | Focus string
  | MouseDown string MouseEvent
  | MouseMove MouseEvent Viewport
  | MouseUp
  | Minimize string
  | Restore string
  | Fire nat
  | DeleteApp string
  | SettingsChange Settings

fun step :: "Event \<Rightarrow> Desktop \<Rightarrow> Desktop" where
  "step (Launch a now rnd) s = render rnd (launchApp a now s)"
| "step (Close k) s = unmountClosed (closeWindow k s)"
| "step (Focus k) s = focusWindow k s"
| "step (MouseDown k e) s =
     (case mounted s k of
        None \<Rightarrow> s
      | Some _ \<Rightarrow> focusWindow k (onWindow k (\<lambda>w. (handleMouseDown e w, [])) s))"
| "step (MouseMove e vp) s = onAllWindows (handleMouseMove e vp) s"
| "step MouseUp s = onAllWindows handleMouseUp s"
| "step (Minimize k) s = onWindow k handleMinimize s"
| "step (Restore k) s = onWindow k handleRestore s"
| "step (Fire i) s = fireTimer i s"
| "step (DeleteApp appId) s = handleDeleteApp appId s"
| "step (SettingsChange st) s = handleSettingsChange st s"

fun run :: "Event list \<Rightarrow> Desktop \<Rightarrow> Desktop" where
  "run [] s = s"
| "run (e # es) s = run es (step e s)"

text \<open>
  Two properties of the window collection that every handler preserves: no window is
  stacked above the counter, and no two windows show the same shortcut.
\<close>

definition zBounded :: "Desktop \<Rightarrow> bool" where
  "zBounded s = (\<forall>w \<in> set (openWindows s). zIndex w \<le> topZ s)"

definition oneWindowPerApp :: "Desktop \<Rightarrow> bool" where
  "oneWindowPerApp s = distinct (map (\<lambda>w. id_app (app w)) (openWindows s))"

text \<open>
  A third one: the mounted instances are exactly the ones of the keys in \<^verbatim>\<open>openWindows\<close>.
\<close>

definition mountedMatches :: "Desktop \<Rightarrow> bool" where
  "mountedMatches s =
     (\<forall>k. (mounted s k \<noteq> None) = (k \<in> set (map id_win (openWindows s))))"

text \<open>The phase and the position of the window mounted under a key, if there is one.\<close>

definition phaseOf :: "Desktop \<Rightarrow> string \<Rightarrow> WindowPhase option" where
  "phaseOf s k = map_option (phase \<circ> snd) (mounted s k)"

definition posOf :: "Desktop \<Rightarrow> string \<Rightarrow> Point option" where
  "posOf s k = map_option (pos \<circ> snd) (mounted s k)"

text \<open>An event that opens a window under the id \<open>k\<close>: a launch that builds this very id.\<close>

fun recreates :: "string \<Rightarrow> Event \<Rightarrow> bool" where
  "recreates k (Launch a now rnd) = (id_app a @ string_of_nat now = k)"
| "recreates k _ = False"

text \<open>
  Window ids end in the digits of the clock. While the clock keeps its number of digits
  (thirteen from September 2001 to November 2286), every id is the shortcut id followed by
  that many characters.
\<close>

fun clockDigits :: "nat \<Rightarrow> Event \<Rightarrow> bool" where
  "clockDigits n (Launch a now rnd) = (length (string_of_nat now) = n)"
| "clockDigits n _ = True"

definition wellKeyed :: "nat \<Rightarrow> Desktop \<Rightarrow> bool" where
  "wellKeyed n s =
     (\<forall>w \<in> set (openWindows s). \<exists>d. id_win w = id_app (app w) @ d \<and> length d = n)"

text \<open>No window with id \<open>k\<close> is open and no component is mounted under \<open>k\<close>.\<close>

definition absent :: "string \<Rightarrow> Desktop \<Rightarrow> bool" where
  "absent k s = (k \<notin> set (map id_win (openWindows s)) \<and> mounted s k = None)"

text \<open>
  The pending timers whose callback belongs to the window under key \<open>k\<close>, and a list of
  firings, given by their indices one after the other, each of a pending timer of some
  other window.
\<close>

definition pendingFor :: "Desktop \<Rightarrow> string \<Rightarrow> Timer list" where
  "pendingFor s k = filter (\<lambda>t. target t = k) (timers s)"

fun foreignFires :: "string \<Rightarrow> nat list \<Rightarrow> Desktop \<Rightarrow> bool" where
  "foreignFires k [] s = True"
| "foreignFires k (i # is) s =
     (i < length (timers s) \<and> target (timers s ! i) \<noteq> k \<and>
      foreignFires k is (step (Fire i) s))"

section \<open>The icon grid: drag and drop\<close>

text \<open>
  The state of \<^verbatim>\<open>DesktopIcons\<close> that \<^verbatim>\<open>handleDrop\<close> reads: \<^verbatim>\<open>draggedId\<close>, \<^verbatim>\<open>dragOverId\<close>
  and the ref \<^verbatim>\<open>dragStartIndex\<close>, which starts at \<^verbatim>\<open>-1\<close>.
\<close>

record DesktopIconsState =
  draggedId :: "string option"
  dragOverId :: "string option"
  dragStartIndex :: int

definition initialIcons :: DesktopIconsState where
  "initialIcons = \<lparr> draggedId = None, dragOverId = None, dragStartIndex = - 1 \<rparr>"

text \<open>
  \<^verbatim>\<open>[...apps].sort((a, b) => Number(a.order) - Number(b.order))\<close>: a stable sort by
  \<^verbatim>\<open>order\<close>.
\<close>

definition sortedApps :: "App list \<Rightarrow> App list" where
  "sortedApps as = sort_key order as"

definition handleDragStart :: "App \<Rightarrow> int \<Rightarrow> DesktopIconsState \<Rightarrow> DesktopIconsState" where
  "handleDragStart a index st = st\<lparr> draggedId := Some (id_app a), dragStartIndex := index \<rparr>"

definition handleDragOver :: "App \<Rightarrow> DesktopIconsState \<Rightarrow> DesktopIconsState" where
  "handleDragOver a st = st\<lparr> dragOverId := Some (id_app a) \<rparr>"

text \<open>
  \<^verbatim>\<open>Array.prototype.splice(start, deleteCount, ...items)\<close>: a negative start counts from
  the end, a start beyond the end is the end, and no more elements are deleted than there
  are. The result is the removed elements and the array afterwards.
\<close>

definition spliceStart :: "int \<Rightarrow> nat \<Rightarrow> nat" where
  "spliceStart start len =
     (if start < 0 then nat (max (int len + start) 0) else min (nat start) len)"

definition splice :: "'a list \<Rightarrow> int \<Rightarrow> nat \<Rightarrow> 'a list \<Rightarrow> 'a list \<times> 'a list" where
  "splice xs start deleteCount items =
     (let k = spliceStart start (length xs);
          d = min deleteCount (length xs - k)
      in (take d (drop k xs), take k xs @ items @ drop (k + d) xs))"

text \<open>
  \<^verbatim>\<open>newApps.map((a, i) => ({ ...a, order: BigInt(i) }))\<close>. An array element is a shortcut
  or \<^verbatim>\<open>undefined\<close> (\<open>None\<close>: what \<^verbatim>\<open>const [removed] = ...\<close> binds when nothing was
  removed); spreading \<^verbatim>\<open>undefined\<close> gives an object that has the field \<^verbatim>\<open>order\<close> only.
\<close>

datatype ReorderedApp = Shortcut App | OrderOnly nat

fun order_of :: "ReorderedApp \<Rightarrow> nat" where
  "order_of (Shortcut a) = order a"
| "order_of (OrderOnly i) = i"

definition reassignOrder :: "App option list \<Rightarrow> ReorderedApp list" where
  "reassignOrder xs =
     map (\<lambda>(a, i). case a of Some a' \<Rightarrow> Shortcut (a'\<lparr> order := i \<rparr>) | None \<Rightarrow> OrderOnly i)
       (zip xs [0..<length xs])"

text \<open>
  \<^verbatim>\<open>handleDrop\<close>. The second component of the result is the argument of the call of
  \<^verbatim>\<open>onReorder\<close>, or \<open>None\<close> when the handler returns without calling it. \<^verbatim>\<open>!draggedId\<close>
  holds for \<^verbatim>\<open>null\<close> and for the empty string.
\<close>

definition handleDrop ::
  "App list \<Rightarrow> App \<Rightarrow> int \<Rightarrow> DesktopIconsState \<Rightarrow> DesktopIconsState \<times> ReorderedApp list option"
where
  "handleDrop as targetApp targetIndex st =
     (if draggedId st = None \<or> draggedId st = Some [] \<or> draggedId st = Some (id_app targetApp)
      then (st\<lparr> draggedId := None, dragOverId := None \<rparr>, None)
      else
        let newApps = map Some (sortedApps as);
            sourceIdx = dragStartIndex st;
            (gone, newApps1) = splice newApps sourceIdx 1 [];
            removed = (case gone of [] \<Rightarrow> None | r # _ \<Rightarrow> r);
            (_, newApps2) = splice newApps1 targetIndex 0 [removed];
            reordered = reassignOrder newApps2
        in (st\<lparr> draggedId := None, dragOverId := None \<rparr>, Some reordered))"

section \<open>The backend actor\<close>

text \<open>
  \<^verbatim>\<open>main.mo\<close>: a map from the caller's principal to that caller's map from shortcut id to
  shortcut. \<^verbatim>\<open>Map.add\<close> of \<^verbatim>\<open>mo:core\<close> inserts the key or replaces its value;
  \<^verbatim>\<open>Runtime.trap\<close> aborts the call with a message and without a state change.
\<close>

type_synonym Principal = string

record Backend =
  userApps :: "Principal \<rightharpoonup> (string \<rightharpoonup> App)"
  userSettings :: "Principal \<rightharpoonup> Settings"

datatype error = Trap string

definition emptyBackend :: Backend where
  "emptyBackend = \<lparr> userApps = Map.empty, userSettings = Map.empty \<rparr>"

definition addApp :: "Principal \<Rightarrow> App \<Rightarrow> Backend \<Rightarrow> error + Backend" where
  "addApp caller a s =
     (let m = (case userApps s caller of None \<Rightarrow> Map.empty | Some existing \<Rightarrow> existing)
      in Inr (s\<lparr> userApps := (userApps s)(caller \<mapsto> m(id_app a \<mapsto> a)) \<rparr>))"

definition updateApp :: "Principal \<Rightarrow> App \<Rightarrow> Backend \<Rightarrow> error + Backend" where
  "updateApp caller a s =
     (case userApps s caller of
        None \<Rightarrow> Inl (Trap ''No apps found for user'')
      | Some m \<Rightarrow>
          if m (id_app a) = None then Inl (Trap ''App not found'')
          else Inr (s\<lparr> userApps := (userApps s)(caller \<mapsto> m(id_app a \<mapsto> a)) \<rparr>))"

definition deleteApp :: "Principal \<Rightarrow> string \<Rightarrow> Backend \<Rightarrow> error + Backend" where
  "deleteApp caller appId s =
     (case userApps s caller of
        None \<Rightarrow> Inl (Trap ''No apps found for user'')
      | Some m \<Rightarrow>
          if m appId = None then Inl (Trap ''App not found'')
          else Inr (s\<lparr> userApps := (userApps s)(caller \<mapsto> m(appId := None)) \<rparr>))"

text \<open>The shortcut a caller has stored under an id, if any.\<close>

definition lookupApp :: "Backend \<Rightarrow> Principal \<Rightarrow> string \<Rightarrow> App option" where
  "lookupApp s caller i = (case userApps s caller of None \<Rightarrow> None | Some m \<Rightarrow> m i)"

section \<open>Example values\<close>

definition shortcut :: "string \<Rightarrow> string \<Rightarrow> nat \<Rightarrow> App" where
  "shortcut i n k =
     \<lparr> id_app = i, url = ''https://'' @ n @ ''.com'', order = k, name = n,
       color = ''#00f5ff'', emoji = ''*'' \<rparr>"

definition appA :: App where
  "appA = shortcut ''a'' ''A'' 0"

definition appB :: App where
  "appB = shortcut ''b'' ''B'' 1"

definition appC :: App where
  "appC = shortcut ''c'' ''C'' 2"

definition origin :: Point where
  "origin = \<lparr> px = 0, py = 0 \<rparr>"

definition smallViewport :: Viewport where
  "smallViewport = \<lparr> innerWidth = 800, innerHeight = 500 \<rparr>"

definition largeViewport :: Viewport where
  "largeViewport = \<lparr> innerWidth = 1920, innerHeight = 1080 \<rparr>"

text \<open>A freshly mounted window at (80, 60) whose title bar was pressed at (100, 70).\<close>

definition grabbed :: AppWindowState where
  "grabbed = handleMouseDown \<lparr> clientX = 100, clientY = 70 \<rparr> (mountAppWindow None origin)"

definition appA2 :: App where
  "appA2 = shortcut ''a'' ''A2'' 7"

definition backendWithA :: Backend where
  "backendWithA = \<lparr> userApps = [''alice'' \<mapsto> [''a'' \<mapsto> appA]], userSettings = Map.empty \<rparr>"

text \<open>
  One window after a double click on minimize and two restores: Minimize at 0 ms and again
  at 200 ms, the first timer at 260 ms, Restore at 300 ms, the second timer at 460 ms,
  Restore at 500 ms, the first restore timer at 620 ms. The window is in phase Open and the
  second restore timer (due at 820 ms) is pending.
\<close>

definition doubleClicked :: Desktop where
  "doubleClicked =
     run [Launch appA 1700000000000 origin,
          Minimize ''a1700000000000'', Minimize ''a1700000000000'', Fire 0,
          Restore ''a1700000000000'', Fire 0,
          Restore ''a1700000000000'', Fire 0]
       (initialDesktop [appA] DEFAULT_SETTINGS)"

definition externalSettings :: Settings where
  "externalSettings = DEFAULT_SETTINGS\<lparr> openInIframe := False \<rparr>"

section \<open>What the handlers leave alone\<close>

lemma openWindows_onWindow [simp]: "openWindows (onWindow k h s) = openWindows s"
  by (simp add: onWindow_def split: option.splits prod.splits)

lemma topZ_onWindow [simp]: "topZ (onWindow k h s) = topZ s"
  by (simp add: onWindow_def split: option.splits prod.splits)

lemma openWindows_onAllWindows [simp]: "openWindows (onAllWindows h s) = openWindows s"
  by (simp add: onAllWindows_def)

lemma topZ_onAllWindows [simp]: "topZ (onAllWindows h s) = topZ s"
  by (simp add: onAllWindows_def)

lemma openWindows_fireTimer [simp]: "openWindows (fireTimer i s) = openWindows s"
  by (simp add: fireTimer_def Let_def split: option.splits prod.splits)

lemma topZ_fireTimer [simp]: "topZ (fireTimer i s) = topZ s"
  by (simp add: fireTimer_def Let_def split: option.splits prod.splits)

lemma openWindows_unmountClosed [simp]: "openWindows (unmountClosed s) = openWindows s"
  by (simp add: unmountClosed_def)

lemma topZ_unmountClosed [simp]: "topZ (unmountClosed s) = topZ s"
  by (simp add: unmountClosed_def)

lemma openWindows_render [simp]: "openWindows (render rnd s) = openWindows s"
  by (simp add: render_def mountOpened_def)

lemma topZ_render [simp]: "topZ (render rnd s) = topZ s"
  by (simp add: render_def mountOpened_def)

lemma openWindows_handleDeleteApp [simp]: "openWindows (handleDeleteApp i s) = openWindows s"
  by (simp add: handleDeleteApp_def Let_def)

lemma topZ_handleDeleteApp [simp]: "topZ (handleDeleteApp i s) = topZ s"
  by (simp add: handleDeleteApp_def Let_def)

lemma openWindows_handleSettingsChange [simp]:
  "openWindows (handleSettingsChange st s) = openWindows s"
  by (simp add: handleSettingsChange_def)

lemma topZ_handleSettingsChange [simp]: "topZ (handleSettingsChange st s) = topZ s"
  by (simp add: handleSettingsChange_def)

lemma localSettings_onWindow [simp]: "localSettings (onWindow k h s) = localSettings s"
  by (simp add: onWindow_def split: option.splits prod.splits)

lemma localSettings_onAllWindows [simp]: "localSettings (onAllWindows h s) = localSettings s"
  by (simp add: onAllWindows_def)

lemma localSettings_fireTimer [simp]: "localSettings (fireTimer i s) = localSettings s"
  by (simp add: fireTimer_def Let_def split: option.splits prod.splits)

lemma localSettings_unmountClosed [simp]: "localSettings (unmountClosed s) = localSettings s"
  by (simp add: unmountClosed_def)

lemma localSettings_render [simp]: "localSettings (render rnd s) = localSettings s"
  by (simp add: render_def mountOpened_def)

lemma localSettings_launchApp [simp]: "localSettings (launchApp a now s) = localSettings s"
  by (simp add: launchApp_def Let_def)

lemma localSettings_focusWindow [simp]: "localSettings (focusWindow k s) = localSettings s"
  by (simp add: focusWindow_def Let_def)

lemma localSettings_closeWindow [simp]: "localSettings (closeWindow k s) = localSettings s"
  by (simp add: closeWindow_def)

lemma localSettings_handleDeleteApp [simp]:
  "localSettings (handleDeleteApp i s) = localSettings s"
  by (simp add: handleDeleteApp_def Let_def)

lemma timers_launchApp [simp]: "timers (launchApp a now s) = timers s"
  by (simp add: launchApp_def Let_def)

lemma timers_unmountClosed [simp]: "timers (unmountClosed s) = timers s"
  by (simp add: unmountClosed_def)

lemma timers_render [simp]: "timers (render rnd s) = timers s"
  by (simp add: render_def mountOpened_def)

lemma timers_focusWindow [simp]: "timers (focusWindow k s) = timers s"
  by (simp add: focusWindow_def Let_def)

lemma timers_closeWindow [simp]: "timers (closeWindow k s) = timers s"
  by (simp add: closeWindow_def)

lemma timers_onAllWindows [simp]: "timers (onAllWindows h s) = timers s"
  by (simp add: onAllWindows_def)

lemma timers_handleDeleteApp [simp]: "timers (handleDeleteApp i s) = timers s"
  by (simp add: handleDeleteApp_def Let_def)

lemma timers_handleSettingsChange [simp]: "timers (handleSettingsChange st s) = timers s"
  by (simp add: handleSettingsChange_def)

lemma mounted_launchApp [simp]: "mounted (launchApp a now s) = mounted s"
  by (simp add: launchApp_def Let_def)

lemma mounted_focusWindow [simp]: "mounted (focusWindow k s) = mounted s"
  by (simp add: focusWindow_def Let_def)

lemma mounted_closeWindow [simp]: "mounted (closeWindow k s) = mounted s"
  by (simp add: closeWindow_def)

lemma mounted_handleDeleteApp [simp]: "mounted (handleDeleteApp i s) = mounted s"
  by (simp add: handleDeleteApp_def Let_def)

lemma mounted_handleSettingsChange [simp]: "mounted (handleSettingsChange st s) = mounted s"
  by (simp add: handleSettingsChange_def)

lemma app_raise [simp]: "app (if c then w\<lparr>zIndex := z\<rparr> else w) = app w"
  by simp

lemma id_win_raise [simp]: "id_win (if c then w\<lparr>zIndex := z\<rparr> else w) = id_win w"
  by simp

lemma find_None_iff_app: "(find P xs = None) = (\<forall>x \<in> set xs. \<not> P x)"
  by (induction xs) auto

section \<open>Invariants of the window collection\<close>

lemma zBounded_launchApp: "zBounded s \<Longrightarrow> zBounded (launchApp a now s)"
  by (fastforce simp: zBounded_def launchApp_def Let_def)

lemma zBounded_focusWindow: "zBounded s \<Longrightarrow> zBounded (focusWindow k s)"
  by (fastforce simp: zBounded_def focusWindow_def Let_def)

lemma zBounded_closeWindow: "zBounded s \<Longrightarrow> zBounded (closeWindow k s)"
  by (simp add: zBounded_def closeWindow_def)

lemma zBounded_cong:
  "openWindows s' = openWindows s \<Longrightarrow> topZ s' = topZ s \<Longrightarrow> zBounded s' = zBounded s"
  by (simp add: zBounded_def)

lemma zBounded_step: "zBounded s \<Longrightarrow> zBounded (step e s)"
proof (cases e)
  case (Launch a now rnd)
  assume "zBounded s"
  then have "zBounded (launchApp a now s)" by (rule zBounded_launchApp)
  then show ?thesis
    using Launch by (simp add: zBounded_cong [of "render rnd (launchApp a now s)"])
next
  case (Close k)
  assume "zBounded s"
  then have "zBounded (closeWindow k s)" by (rule zBounded_closeWindow)
  then show ?thesis
    using Close by (simp add: zBounded_cong [of "unmountClosed (closeWindow k s)"])
next
  case (Focus k)
  assume "zBounded s"
  then show ?thesis using Focus by (simp add: zBounded_focusWindow)
next
  case (MouseDown k e)
  assume z: "zBounded s"
  then have "zBounded (onWindow k (\<lambda>w. (handleMouseDown e w, [])) s)"
    by (simp add: zBounded_cong [of "onWindow k (\<lambda>w. (handleMouseDown e w, [])) s"])
  then show ?thesis
    using MouseDown z by (simp add: zBounded_focusWindow split: option.splits)
qed (simp_all add: zBounded_def)

lemma zBounded_run: "zBounded s \<Longrightarrow> zBounded (run evs s)"
  by (induction evs arbitrary: s) (simp_all add: zBounded_step)

lemma zBounded_initial: "zBounded (initialDesktop as st)"
  by (simp add: zBounded_def initialDesktop_def)

lemma oneWindowPerApp_launchApp: "oneWindowPerApp s \<Longrightarrow> oneWindowPerApp (launchApp a now s)"
  by (auto simp: oneWindowPerApp_def launchApp_def Let_def find_None_iff_app comp_def)

lemma oneWindowPerApp_focusWindow: "oneWindowPerApp s \<Longrightarrow> oneWindowPerApp (focusWindow k s)"
  by (simp add: oneWindowPerApp_def focusWindow_def Let_def comp_def)

lemma oneWindowPerApp_closeWindow: "oneWindowPerApp s \<Longrightarrow> oneWindowPerApp (closeWindow k s)"
  by (simp add: oneWindowPerApp_def closeWindow_def distinct_map_filter)

lemma oneWindowPerApp_step: "oneWindowPerApp s \<Longrightarrow> oneWindowPerApp (step e s)"
proof (cases e)
  case (Launch a now rnd)
  assume "oneWindowPerApp s"
  then have "oneWindowPerApp (launchApp a now s)" by (rule oneWindowPerApp_launchApp)
  then show ?thesis using Launch by (simp add: oneWindowPerApp_def)
next
  case (Close k)
  assume "oneWindowPerApp s"
  then have "oneWindowPerApp (closeWindow k s)" by (rule oneWindowPerApp_closeWindow)
  then show ?thesis using Close by (simp add: oneWindowPerApp_def)
next
  case (Focus k)
  assume "oneWindowPerApp s"
  then show ?thesis using Focus by (simp add: oneWindowPerApp_focusWindow)
next
  case (MouseDown k e)
  assume o: "oneWindowPerApp s"
  then have "oneWindowPerApp (onWindow k (\<lambda>w. (handleMouseDown e w, [])) s)"
    by (simp add: oneWindowPerApp_def)
  then show ?thesis
    using MouseDown o by (simp add: oneWindowPerApp_focusWindow split: option.splits)
qed (simp_all add: oneWindowPerApp_def)

lemma oneWindowPerApp_run: "oneWindowPerApp s \<Longrightarrow> oneWindowPerApp (run evs s)"
  by (induction evs arbitrary: s) (simp_all add: oneWindowPerApp_step)

lemma oneWindowPerApp_initial: "oneWindowPerApp (initialDesktop as st)"
  by (simp add: oneWindowPerApp_def initialDesktop_def)

section \<open>Launching outside the desktop\<close>

text \<open>
  C10. With \<^verbatim>\<open>settings.openInIframe\<close> false, \<^verbatim>\<open>launchApp\<close> leaves the open-window
  collection and the z-index counter as they are, both as the handler returns and after
  the render that follows; the only effect is that the shortcut's URL is passed to
  \<^verbatim>\<open>window.open\<close>.
\<close>

theorem launch_external_leaves_windows:
  "\<not> openInIframe (localSettings s) \<Longrightarrow>
     openWindows (launchApp a now s) = openWindows s \<and>
     topZ (launchApp a now s) = topZ s \<and>
     externalOpens (launchApp a now s) = externalOpens s @ [url a] \<and>
     openWindows (step (Launch a now rnd) s) = openWindows s \<and>
     topZ (step (Launch a now rnd) s) = topZ s"
  by (simp add: launchApp_def)

theorem launch_external_leaves_windows_witness:
  "\<not> openInIframe (localSettings (initialDesktop [appA] externalSettings)) \<and>
   openWindows (step (Launch appA 1700000000000 origin) (initialDesktop [appA] externalSettings)) = [] \<and>
   topZ (step (Launch appA 1700000000000 origin) (initialDesktop [appA] externalSettings)) = 100 \<and>
   externalOpens (launchApp appA 1700000000000 (initialDesktop [appA] externalSettings))
     = [''https://A.com'']"
proof -
  have h: "\<not> openInIframe (localSettings (initialDesktop [appA] externalSettings))"
    by (simp add: initialDesktop_def externalSettings_def DEFAULT_SETTINGS_def)
  show ?thesis
    using h launch_external_leaves_windows [OF h, of appA 1700000000000 origin]
    by (simp add: initialDesktop_def appA_def shortcut_def)
qed

section \<open>Stacking order\<close>

lemma focusWindow_topZ: "topZ (focusWindow k s) = topZ s + 1"
  by (simp add: focusWindow_def Let_def)

lemma focusWindow_length: "length (openWindows (focusWindow k s)) = length (openWindows s)"
  by (simp add: focusWindow_def Let_def)

lemma focusWindow_nth:
  "i < length (openWindows s) \<Longrightarrow>
     openWindows (focusWindow k s) ! i =
       (if id_win (openWindows s ! i) = k then (openWindows s ! i)\<lparr>zIndex := topZ s + 1\<rparr>
        else openWindows s ! i)"
  by (simp add: focusWindow_def Let_def)

lemma focusWindow_member:
  assumes "w \<in> set (openWindows (focusWindow k s))"
  shows "(id_win w = k \<and> zIndex w = topZ s + 1) \<or> (id_win w \<noteq> k \<and> w \<in> set (openWindows s))"
proof -
  from assms obtain v where v: "v \<in> set (openWindows s)"
    and w: "w = (if id_win v = k then v\<lparr>zIndex := topZ s + 1\<rparr> else v)"
    unfolding focusWindow_def Let_def by (auto simp del: id_win_raise app_raise)
  show ?thesis
  proof (cases "id_win v = k")
    case True
    with w show ?thesis by simp
  next
    case False
    with w v show ?thesis by simp
  qed
qed

lemma focusWindow_on_top:
  assumes "zBounded s" and "w \<in> set (openWindows (focusWindow k s))"
    and "w' \<in> set (openWindows (focusWindow k s))" and "id_win w = k" and "id_win w' \<noteq> k"
  shows "zIndex w' < zIndex w"
proof -
  from assms(2,4) have "zIndex w = topZ s + 1"
    using focusWindow_member by blast
  moreover from assms(3,5) have "w' \<in> set (openWindows s)"
    using focusWindow_member by blast
  with assms(1) have "zIndex w' \<le> topZ s" by (simp add: zBounded_def)
  ultimately show ?thesis by simp
qed

lemma launch_topZ:
  "openInIframe (localSettings s) \<Longrightarrow> topZ (step (Launch a now rnd) s) = topZ s + 1"
  by (simp add: launchApp_def Let_def)

lemma launch_window_exists:
  assumes "openInIframe (localSettings s)"
  shows "\<exists>i < length (openWindows (step (Launch a now rnd) s)).
           id_app (app (openWindows (step (Launch a now rnd) s) ! i)) = id_app a"
proof (cases "find (\<lambda>w. id_app (app w) = id_app a) (openWindows s) = None")
  case True
  with assms have "openWindows (step (Launch a now rnd) s) =
      openWindows s @ [\<lparr>id_win = id_app a @ string_of_nat now, app = a, zIndex = topZ s + 1\<rparr>]"
    by (simp add: launchApp_def Let_def)
  then show ?thesis
    by (auto intro!: exI [of _ "length (openWindows s)"])
next
  case False
  then obtain w where w: "w \<in> set (openWindows s)" "id_app (app w) = id_app a"
    by (auto simp: find_None_iff_app)
  then obtain i where i: "i < length (openWindows s)" "openWindows s ! i = w"
    by (auto simp: in_set_conv_nth)
  from False assms have "openWindows (step (Launch a now rnd) s) =
      map (\<lambda>w. if id_app (app w) = id_app a then w\<lparr>zIndex := topZ s + 1\<rparr> else w) (openWindows s)"
    by (simp add: launchApp_def Let_def)
  with i w show ?thesis by (auto intro!: exI [of _ i])
qed

lemma launch_on_top:
  assumes inv: "zBounded s" "oneWindowPerApp s" and ifr: "openInIframe (localSettings s)"
    and i: "i < length (openWindows (step (Launch a now rnd) s))"
    and j: "j < length (openWindows (step (Launch a now rnd) s))"
    and a: "id_app (app (openWindows (step (Launch a now rnd) s) ! i)) = id_app a"
    and ij: "i \<noteq> j"
  shows "zIndex (openWindows (step (Launch a now rnd) s) ! i) = topZ s + 1 \<and>
         zIndex (openWindows (step (Launch a now rnd) s) ! j) < topZ s + 1"
proof (cases "find (\<lambda>w. id_app (app w) = id_app a) (openWindows s) = None")
  case True
  let ?new = "\<lparr>id_win = id_app a @ string_of_nat now, app = a, zIndex = topZ s + 1\<rparr>"
  from True ifr have ws: "openWindows (step (Launch a now rnd) s) = openWindows s @ [?new]"
    by (simp add: launchApp_def Let_def)
  have none: "\<forall>w \<in> set (openWindows s). id_app (app w) \<noteq> id_app a"
    using True by (simp add: find_None_iff_app)
  have "i = length (openWindows s)"
  proof (rule ccontr)
    assume "i \<noteq> length (openWindows s)"
    with i ws have "i < length (openWindows s)" by simp
    with a ws none show False by (simp add: nth_append)
  qed
  moreover from this ij j ws have jl: "j < length (openWindows s)" by simp
  moreover from jl inv(1) have "zIndex (openWindows s ! j) \<le> topZ s"
    by (simp add: zBounded_def)
  ultimately show ?thesis using ws by (simp add: nth_append)
next
  case False
  let ?f = "\<lambda>w. if id_app (app w) = id_app a then w\<lparr>zIndex := topZ s + 1\<rparr> else w"
  from False ifr have ws: "openWindows (step (Launch a now rnd) s) = map ?f (openWindows s)"
    by (simp add: launchApp_def Let_def)
  from i j ws have il: "i < length (openWindows s)" and jl: "j < length (openWindows s)"
    by simp_all
  from a ws il have ai: "id_app (app (openWindows s ! i)) = id_app a" by simp
  have "id_app (app (openWindows s ! j)) \<noteq> id_app (app (openWindows s ! i))"
  proof
    assume "id_app (app (openWindows s ! j)) = id_app (app (openWindows s ! i))"
    with il jl have "map (\<lambda>w. id_app (app w)) (openWindows s) ! j =
        map (\<lambda>w. id_app (app w)) (openWindows s) ! i" by simp
    with inv(2) il jl have "j = i"
      by (simp add: oneWindowPerApp_def nth_eq_iff_index_eq del: nth_map)
    with ij show False by simp
  qed
  with ai have aj: "id_app (app (openWindows s ! j)) \<noteq> id_app a" by simp
  from jl inv(1) have "zIndex (openWindows s ! j) \<le> topZ s" by (simp add: zBounded_def)
  with ws il jl ai aj show ?thesis by simp
qed

lemma wellKeyed_cong:
  "openWindows s' = openWindows s \<Longrightarrow> wellKeyed n s' = wellKeyed n s"
  by (simp add: wellKeyed_def)

lemma wellKeyed_launchApp:
  assumes "wellKeyed n s" and "length (string_of_nat now) = n"
  shows "wellKeyed n (launchApp a now s)"
proof -
  have "\<exists>d. id_win w = id_app (app w) @ d \<and> length d = n"
    if "w \<in> set (openWindows (launchApp a now s))" for w
  proof -
    from that consider
      (old) v where "v \<in> set (openWindows s)" "id_win w = id_win v" "app w = app v"
      | (new) "id_win w = id_app a @ string_of_nat now" "app w = a"
      by (auto simp: launchApp_def Let_def split: if_splits)
    then show ?thesis
    proof cases
      case old
      with assms(1) show ?thesis by (auto simp: wellKeyed_def)
    next
      case new
      with assms(2) show ?thesis by simp
    qed
  qed
  then show ?thesis by (simp add: wellKeyed_def)
qed

lemma wellKeyed_focusWindow: "wellKeyed n s \<Longrightarrow> wellKeyed n (focusWindow k s)"
  by (auto simp: wellKeyed_def focusWindow_def Let_def)

lemma wellKeyed_closeWindow: "wellKeyed n s \<Longrightarrow> wellKeyed n (closeWindow k s)"
  by (simp add: wellKeyed_def closeWindow_def)

lemma wellKeyed_step: "wellKeyed n s \<Longrightarrow> clockDigits n e \<Longrightarrow> wellKeyed n (step e s)"
proof (cases e)
  case (Launch a now rnd)
  assume "wellKeyed n s" "clockDigits n e"
  with Launch have "wellKeyed n (launchApp a now s)" by (simp add: wellKeyed_launchApp)
  then show ?thesis
    using Launch by (simp add: wellKeyed_cong [of "render rnd (launchApp a now s)"])
next
  case (Close k)
  assume "wellKeyed n s"
  then have "wellKeyed n (closeWindow k s)" by (rule wellKeyed_closeWindow)
  then show ?thesis
    using Close by (simp add: wellKeyed_cong [of "unmountClosed (closeWindow k s)"])
next
  case (Focus k)
  assume "wellKeyed n s"
  then show ?thesis using Focus by (simp add: wellKeyed_focusWindow)
next
  case (MouseDown k e)
  assume w: "wellKeyed n s"
  then have "wellKeyed n (onWindow k (\<lambda>w. (handleMouseDown e w, [])) s)"
    by (simp add: wellKeyed_cong [of "onWindow k (\<lambda>w. (handleMouseDown e w, [])) s"])
  then show ?thesis
    using MouseDown w by (simp add: wellKeyed_focusWindow split: option.splits)
qed (simp_all add: wellKeyed_def)

lemma wellKeyed_run:
  "wellKeyed n s \<Longrightarrow> \<forall>e \<in> set evs. clockDigits n e \<Longrightarrow> wellKeyed n (run evs s)"
  by (induction evs arbitrary: s) (simp_all add: wellKeyed_step del: step.simps)

lemma wellKeyed_initial: "wellKeyed n (initialDesktop as st)"
  by (simp add: wellKeyed_def initialDesktop_def)

lemma distinct_window_ids:
  assumes "oneWindowPerApp s" and "wellKeyed n s"
  shows "distinct (map id_win (openWindows s))"
proof -
  from assms(1) have d: "distinct (openWindows s)"
    and inj: "inj_on (\<lambda>w. id_app (app w)) (set (openWindows s))"
    by (simp_all add: oneWindowPerApp_def distinct_map)
  have "inj_on id_win (set (openWindows s))"
  proof (rule inj_onI)
    fix v w
    assume v: "v \<in> set (openWindows s)" and w: "w \<in> set (openWindows s)"
      and eq: "id_win v = id_win w"
    from assms(2) v obtain dv where dv: "id_win v = id_app (app v) @ dv" "length dv = n"
      by (auto simp: wellKeyed_def)
    from assms(2) w obtain dw where dw: "id_win w = id_app (app w) @ dw" "length dw = n"
      by (auto simp: wellKeyed_def)
    from eq dv dw have "id_app (app v) = id_app (app w)" by simp
    with inj v w show "v = w" by (simp add: inj_on_def)
  qed
  with d show ?thesis by (simp add: distinct_map)
qed

lemma focus_on_top_by_position:
  assumes z: "zBounded s" and d: "distinct (map id_win (openWindows s))"
    and i: "i < length (openWindows s)" and j: "j < length (openWindows s)"
    and k: "id_win (openWindows s ! i) = k" and ij: "i \<noteq> j"
  shows "zIndex (openWindows (focusWindow k s) ! j) < zIndex (openWindows (focusWindow k s) ! i)"
proof -
  have "id_win (openWindows s ! j) \<noteq> k"
  proof
    assume "id_win (openWindows s ! j) = k"
    with k i j have "map id_win (openWindows s) ! j = map id_win (openWindows s) ! i" by simp
    with d i j have "j = i" by (simp add: nth_eq_iff_index_eq del: nth_map)
    with ij show False by simp
  qed
  moreover from z j have "zIndex (openWindows s ! j) \<le> topZ s" by (simp add: zBounded_def)
  ultimately show ?thesis using i j k by (simp add: focusWindow_nth)
qed

text \<open>
  C1. Z-order monotonicity. In every state \<open>s\<close> the shell reaches from its initial state
  by any sequence of events (launches and focuses among them):
  \<^item> \<^verbatim>\<open>focusWindow(k)\<close> advances the counter by one, gives the new counter value to the
    window with id \<open>k\<close> and leaves every other window as it is, so that the focused window
    lies strictly above every window with another id; and while the clock has shown the
    same number of digits at every launch, ids are unique, so that the focused window lies
    strictly above the window at every other position;
  \<^item> a launch in the desktop (\<^verbatim>\<open>openInIframe\<close>) advances the counter by one, and
    afterwards the window of the launched shortcut exists, carries the new counter value
    and lies strictly above the window at every other position.
\<close>

theorem z_order_monotonic:
  "let s = run evs (initialDesktop as st);
       f = step (Focus k) s;
       l = step (Launch a now rnd) s
   in topZ f = topZ s + 1 \<and>
      length (openWindows f) = length (openWindows s) \<and>
      (\<forall>i < length (openWindows s).
         (id_win (openWindows s ! i) = k \<longrightarrow>
            openWindows f ! i = (openWindows s ! i)\<lparr>zIndex := topZ s + 1\<rparr>) \<and>
         (id_win (openWindows s ! i) \<noteq> k \<longrightarrow> openWindows f ! i = openWindows s ! i)) \<and>
      (\<forall>w \<in> set (openWindows f). \<forall>w' \<in> set (openWindows f).
         id_win w = k \<and> id_win w' \<noteq> k \<longrightarrow> zIndex w' < zIndex w) \<and>
      ((\<forall>e \<in> set evs. clockDigits n e) \<longrightarrow>
         distinct (map id_win (openWindows s)) \<and>
         (\<forall>i < length (openWindows s). \<forall>j < length (openWindows s).
            id_win (openWindows s ! i) = k \<and> i \<noteq> j \<longrightarrow>
              zIndex (openWindows f ! j) < zIndex (openWindows f ! i))) \<and>
      (openInIframe (localSettings s) \<longrightarrow>
         topZ l = topZ s + 1 \<and>
         (\<exists>i < length (openWindows l). id_app (app (openWindows l ! i)) = id_app a) \<and>
         (\<forall>i < length (openWindows l). \<forall>j < length (openWindows l).
            id_app (app (openWindows l ! i)) = id_app a \<and> i \<noteq> j \<longrightarrow>
              zIndex (openWindows l ! i) = topZ l \<and>
              zIndex (openWindows l ! j) < zIndex (openWindows l ! i)))"
proof -
  define s where "s = run evs (initialDesktop as st)"
  have zb: "zBounded s"
    unfolding s_def by (rule zBounded_run) (rule zBounded_initial)
  have one: "oneWindowPerApp s"
    unfolding s_def by (rule oneWindowPerApp_run) (rule oneWindowPerApp_initial)
  have f1: "topZ (step (Focus k) s) = topZ s + 1"
    by (simp add: focusWindow_topZ)
  have f2: "length (openWindows (step (Focus k) s)) = length (openWindows s)"
    by (simp add: focusWindow_length)
  have f3: "\<forall>i < length (openWindows s).
         (id_win (openWindows s ! i) = k \<longrightarrow>
            openWindows (step (Focus k) s) ! i = (openWindows s ! i)\<lparr>zIndex := topZ s + 1\<rparr>) \<and>
         (id_win (openWindows s ! i) \<noteq> k \<longrightarrow> openWindows (step (Focus k) s) ! i = openWindows s ! i)"
    by (simp add: focusWindow_nth)
  have f4: "\<forall>w \<in> set (openWindows (step (Focus k) s)). \<forall>w' \<in> set (openWindows (step (Focus k) s)).
         id_win w = k \<and> id_win w' \<noteq> k \<longrightarrow> zIndex w' < zIndex w"
    using focusWindow_on_top [OF zb] by auto
  have c: "(\<forall>e \<in> set evs. clockDigits n e) \<longrightarrow>
         distinct (map id_win (openWindows s)) \<and>
         (\<forall>i < length (openWindows s). \<forall>j < length (openWindows s).
            id_win (openWindows s ! i) = k \<and> i \<noteq> j \<longrightarrow>
              zIndex (openWindows (step (Focus k) s) ! j)
                < zIndex (openWindows (step (Focus k) s) ! i))"
  proof (intro impI conjI allI)
    assume ck: "\<forall>e \<in> set evs. clockDigits n e"
    have wk: "wellKeyed n s"
      unfolding s_def using wellKeyed_initial ck by (rule wellKeyed_run)
    from one wk show d: "distinct (map id_win (openWindows s))"
      by (rule distinct_window_ids)
    fix i j
    assume "i < length (openWindows s)" and "j < length (openWindows s)"
      and "id_win (openWindows s ! i) = k \<and> i \<noteq> j"
    then show "zIndex (openWindows (step (Focus k) s) ! j)
                < zIndex (openWindows (step (Focus k) s) ! i)"
      using focus_on_top_by_position [OF zb d, of i j k] by simp
  qed
  have l: "openInIframe (localSettings s) \<longrightarrow>
         topZ (step (Launch a now rnd) s) = topZ s + 1 \<and>
         (\<exists>i < length (openWindows (step (Launch a now rnd) s)).
            id_app (app (openWindows (step (Launch a now rnd) s) ! i)) = id_app a) \<and>
         (\<forall>i < length (openWindows (step (Launch a now rnd) s)).
          \<forall>j < length (openWindows (step (Launch a now rnd) s)).
            id_app (app (openWindows (step (Launch a now rnd) s) ! i)) = id_app a \<and> i \<noteq> j \<longrightarrow>
              zIndex (openWindows (step (Launch a now rnd) s) ! i) = topZ (step (Launch a now rnd) s) \<and>
              zIndex (openWindows (step (Launch a now rnd) s) ! j)
                < zIndex (openWindows (step (Launch a now rnd) s) ! i))"
  proof (intro impI conjI allI)
    assume ifr: "openInIframe (localSettings s)"
    show "topZ (step (Launch a now rnd) s) = topZ s + 1" using ifr by (rule launch_topZ)
    show "\<exists>i < length (openWindows (step (Launch a now rnd) s)).
            id_app (app (openWindows (step (Launch a now rnd) s) ! i)) = id_app a"
      using ifr by (rule launch_window_exists)
  next
    fix i j
    assume ifr: "openInIframe (localSettings s)"
      and "i < length (openWindows (step (Launch a now rnd) s))"
      and "j < length (openWindows (step (Launch a now rnd) s))"
      and "id_app (app (openWindows (step (Launch a now rnd) s) ! i)) = id_app a \<and> i \<noteq> j"
    then have *: "zIndex (openWindows (step (Launch a now rnd) s) ! i) = topZ s + 1 \<and>
         zIndex (openWindows (step (Launch a now rnd) s) ! j) < topZ s + 1"
      using launch_on_top [OF zb one ifr, of i a now rnd j] by blast
    from * ifr show "zIndex (openWindows (step (Launch a now rnd) s) ! i) = topZ (step (Launch a now rnd) s)"
      by (simp only: launch_topZ)
    from * show "zIndex (openWindows (step (Launch a now rnd) s) ! j)
                < zIndex (openWindows (step (Launch a now rnd) s) ! i)" by simp
  qed
  from f1 f2 f3 f4 c l show ?thesis
    unfolding Let_def s_def [symmetric] by (intro conjI)
qed

theorem z_order_monotonic_witness:
  "let evs = [Launch appA 1700000000000 origin, Launch appB 1700000000001 origin];
       s = run evs (initialDesktop [appA, appB] DEFAULT_SETTINGS);
       f = step (Focus ''a1700000000000'') s;
       l = step (Launch appA 1700000000002 origin) s
   in (\<forall>e \<in> set evs. clockDigits 13 e) \<and>
      map id_win (openWindows s) = [''a1700000000000'', ''b1700000000001''] \<and>
      distinct (map id_win (openWindows s)) \<and>
      map zIndex (openWindows s) = [101, 102] \<and>
      topZ s = 102 \<and>
      openInIframe (localSettings s) \<and>
      topZ f = 103 \<and>
      map zIndex (openWindows f) = [103, 102] \<and>
      zIndex (openWindows f ! 1) < zIndex (openWindows f ! 0) \<and>
      topZ l = 103 \<and>
      map id_win (openWindows l) = [''a1700000000000'', ''b1700000000001''] \<and>
      zIndex (openWindows l ! 1) < zIndex (openWindows l ! 0)"
proof -
  define evs where
    "evs = [Launch appA 1700000000000 origin, Launch appB 1700000000001 origin]"
  define s where "s = run evs (initialDesktop [appA, appB] DEFAULT_SETTINGS)"
  define f where "f = step (Focus ''a1700000000000'') s"
  define l where "l = step (Launch appA 1700000000002 origin) s"
  have ck: "\<forall>e \<in> set evs. clockDigits 13 e"
    unfolding evs_def by (simp add: string_of_nat.simps)
  have s_ws: "openWindows s =
      [\<lparr>id_win = ''a1700000000000'', app = appA, zIndex = 101\<rparr>,
       \<lparr>id_win = ''b1700000000001'', app = appB, zIndex = 102\<rparr>]"
    and s_top: "topZ s = 102" and s_ifr: "openInIframe (localSettings s)"
    unfolding s_def evs_def
    by (simp_all add: Let_def initialDesktop_def DEFAULT_SETTINGS_def launchApp_def
        appA_def appB_def shortcut_def string_of_nat.simps)
  have f_ws: "openWindows f =
      [\<lparr>id_win = ''a1700000000000'', app = appA, zIndex = 103\<rparr>,
       \<lparr>id_win = ''b1700000000001'', app = appB, zIndex = 102\<rparr>]"
    unfolding f_def using s_ws s_top by (simp add: focusWindow_def Let_def)
  have l_ws: "openWindows l =
      [\<lparr>id_win = ''a1700000000000'', app = appA, zIndex = 103\<rparr>,
       \<lparr>id_win = ''b1700000000001'', app = appB, zIndex = 102\<rparr>]"
    unfolding l_def using s_ws s_top s_ifr
    by (simp add: launchApp_def Let_def appA_def appB_def shortcut_def)
  note t = z_order_monotonic [where evs = evs and as = "[appA, appB]"
      and st = DEFAULT_SETTINGS and k = "''a1700000000000''" and n = 13 and a = appA
      and now = 1700000000002 and rnd = origin,
      unfolded Let_def, folded s_def, folded f_def l_def]
  from t have f_top: "topZ f = topZ s + 1" by (rule conjunct1)
  from t ck have tc: "distinct (map id_win (openWindows s)) \<and>
         (\<forall>i < length (openWindows s). \<forall>j < length (openWindows s).
            id_win (openWindows s ! i) = ''a1700000000000'' \<and> i \<noteq> j \<longrightarrow>
              zIndex (openWindows f ! j) < zIndex (openWindows f ! i))"
    by blast
  then have s_dist: "distinct (map id_win (openWindows s))" by (rule conjunct1)
  from tc have "id_win (openWindows s ! 0) = ''a1700000000000'' \<and> (0::nat) \<noteq> 1 \<longrightarrow>
              zIndex (openWindows f ! 1) < zIndex (openWindows f ! 0)"
    using s_ws by (elim conjE allE [of _ 0] allE [of _ 1]) simp
  with s_ws have f_above: "zIndex (openWindows f ! 1) < zIndex (openWindows f ! 0)" by simp
  from t s_ifr have tl: "topZ l = topZ s + 1 \<and>
         (\<forall>i < length (openWindows l). \<forall>j < length (openWindows l).
            id_app (app (openWindows l ! i)) = id_app appA \<and> i \<noteq> j \<longrightarrow>
              zIndex (openWindows l ! i) = topZ l \<and>
              zIndex (openWindows l ! j) < zIndex (openWindows l ! i))"
    by blast
  then have "id_app (app (openWindows l ! 0)) = id_app appA \<and> (0::nat) \<noteq> 1 \<longrightarrow>
              zIndex (openWindows l ! 1) < zIndex (openWindows l ! 0)"
    using l_ws by (elim conjE allE [of _ 0] allE [of _ 1]) simp
  with l_ws have l_above: "zIndex (openWindows l ! 1) < zIndex (openWindows l ! 0)" by simp
  from tl have l_top: "topZ l = topZ s + 1" by (rule conjunct1)
  show ?thesis
    unfolding Let_def evs_def [symmetric] s_def [symmetric] f_def [symmetric] l_def [symmetric]
    using ck s_ws s_dist s_top s_ifr f_top f_ws f_above l_top l_ws l_above by simp
qed

section \<open>One window per shortcut\<close>

lemma mounted_onWindow_dom:
  "(mounted (onWindow k h s) k' \<noteq> None) = (mounted s k' \<noteq> None)"
  by (simp add: onWindow_def split: option.splits prod.splits)

lemma mounted_onAllWindows_dom:
  "(mounted (onAllWindows h s) k' \<noteq> None) = (mounted s k' \<noteq> None)"
  by (simp add: onAllWindows_def split: option.splits prod.splits)

lemma mounted_fireTimer_dom:
  "(mounted (fireTimer i s) k' \<noteq> None) = (mounted s k' \<noteq> None)"
  by (simp add: fireTimer_def Let_def split: option.splits prod.splits)

lemma ids_focusWindow [simp]:
  "map id_win (openWindows (focusWindow k s)) = map id_win (openWindows s)"
  by (simp add: focusWindow_def Let_def comp_def)

lemma mountedMatches_render: "mountedMatches (render rnd s)"
  by (simp add: mountedMatches_def render_def mountOpened_def unmountClosed_def)

lemma mountedMatches_close:
  "mountedMatches s \<Longrightarrow> mountedMatches (unmountClosed (closeWindow k s))"
  by (auto simp: mountedMatches_def unmountClosed_def closeWindow_def)

lemma mountedMatches_step: "mountedMatches s \<Longrightarrow> mountedMatches (step e s)"
proof (cases e)
  case (Launch a now rnd)
  then show ?thesis by (simp add: mountedMatches_render)
next
  case (Close k)
  assume "mountedMatches s"
  then show ?thesis using Close by (simp add: mountedMatches_close)
next
  case (Focus k)
  assume "mountedMatches s"
  then show ?thesis using Focus by (simp add: mountedMatches_def)
next
  case (MouseDown k e)
  assume mm: "mountedMatches s"
  then have "mountedMatches (focusWindow k (onWindow k (\<lambda>w. (handleMouseDown e w, [])) s))"
    by (simp add: mountedMatches_def mounted_onWindow_dom del: not_None_eq)
  with mm show ?thesis using MouseDown by (simp split: option.splits)
next
  case (MouseMove e vp)
  assume "mountedMatches s"
  then show ?thesis using MouseMove
    by (simp add: mountedMatches_def mounted_onAllWindows_dom del: not_None_eq)
next
  case MouseUp
  assume "mountedMatches s"
  then show ?thesis using MouseUp
    by (simp add: mountedMatches_def mounted_onAllWindows_dom del: not_None_eq)
next
  case (Minimize k)
  assume "mountedMatches s"
  then show ?thesis using Minimize
    by (simp add: mountedMatches_def mounted_onWindow_dom del: not_None_eq)
next
  case (Restore k)
  assume "mountedMatches s"
  then show ?thesis using Restore
    by (simp add: mountedMatches_def mounted_onWindow_dom del: not_None_eq)
next
  case (Fire i)
  assume "mountedMatches s"
  then show ?thesis using Fire
    by (simp add: mountedMatches_def mounted_fireTimer_dom del: not_None_eq)
next
  case (DeleteApp appId)
  assume "mountedMatches s"
  then show ?thesis using DeleteApp
    by (simp add: mountedMatches_def handleDeleteApp_def Let_def)
next
  case (SettingsChange st)
  assume "mountedMatches s"
  then show ?thesis using SettingsChange
    by (simp add: mountedMatches_def handleSettingsChange_def)
qed

lemma mountedMatches_run: "mountedMatches s \<Longrightarrow> mountedMatches (run evs s)"
  by (induction evs arbitrary: s) (simp_all add: mountedMatches_step)

lemma mountedMatches_initial: "mountedMatches (initialDesktop as st)"
  by (simp add: mountedMatches_def initialDesktop_def)

lemma render_same_keys:
  assumes "mountedMatches s" and "map id_win (openWindows s') = map id_win (openWindows s)"
    and "mounted s' = mounted s"
  shows "mounted (render rnd s') = mounted s"
proof
  fix k
  show "mounted (render rnd s') k = mounted s k"
  proof (cases "k \<in> set (map id_win (openWindows s))")
    case True
    with assms(1) have "mounted s k \<noteq> None" unfolding mountedMatches_def by blast
    with True assms(2,3) show ?thesis
      by (simp add: render_def mountOpened_def unmountClosed_def del: not_None_eq)
  next
    case False
    with assms(1) have "mounted s k = None" unfolding mountedMatches_def by blast
    with False assms(2,3) show ?thesis
      by (simp add: render_def mountOpened_def unmountClosed_def)
  qed
qed

lemma length_filter_distinct_key:
  "distinct (map f xs) \<Longrightarrow> x \<in> set xs \<Longrightarrow> length (filter (\<lambda>y. f y = f x) xs) = 1"
proof (induction xs)
  case Nil
  then show ?case by simp
next
  case (Cons y ys)
  show ?case
  proof (cases "f y = f x")
    case True
    from Cons.prems(1) have "f y \<notin> f ` set ys" by simp
    with True have "\<forall>z \<in> set ys. f z \<noteq> f x" by (metis imageI)
    then have "filter (\<lambda>y. f y = f x) ys = []" by (simp add: filter_empty_conv)
    with True show ?thesis by simp
  next
    case False
    with Cons show ?thesis by auto
  qed
qed

lemma relaunch_windows:
  assumes "w \<in> set (openWindows s)" and "id_app (app w) = id_app a"
  shows "openWindows (launchApp a now s) =
     (if openInIframe (localSettings s)
      then map (\<lambda>w. if id_app (app w) = id_app a then w\<lparr>zIndex := topZ s + 1\<rparr> else w)
             (openWindows s)
      else openWindows s)"
proof -
  from assms have "find (\<lambda>w. id_app (app w) = id_app a) (openWindows s) \<noteq> None"
    by (auto simp: find_None_iff_app simp del: not_None_eq)
  then show ?thesis by (simp add: launchApp_def Let_def del: not_None_eq)
qed

text \<open>
  C2 as stated fails: the raise belongs to the \<^verbatim>\<open>openInIframe\<close> branch of \<^verbatim>\<open>launchApp\<close>
  only. With a window of the shortcut open, the setting switched off in the settings
  window and the shortcut launched again, the window keeps its zIndex 101 and the counter
  stays at 101.
\<close>

theorem relaunch_external_counterexample:
  "map (id_app \<circ> app)
     (openWindows (run [Launch appA 1700000000000 origin, SettingsChange externalSettings]
                     (initialDesktop [appA] DEFAULT_SETTINGS))) = [''a''] \<and>
   map zIndex
     (openWindows (run [Launch appA 1700000000000 origin, SettingsChange externalSettings]
                     (initialDesktop [appA] DEFAULT_SETTINGS))) = [101] \<and>
   topZ (run [Launch appA 1700000000000 origin, SettingsChange externalSettings]
           (initialDesktop [appA] DEFAULT_SETTINGS)) = 101 \<and>
   map zIndex
     (openWindows (run [Launch appA 1700000000000 origin, SettingsChange externalSettings,
                        Launch appA 1700000000002 origin]
                     (initialDesktop [appA] DEFAULT_SETTINGS))) = [101] \<and>
   topZ (run [Launch appA 1700000000000 origin, SettingsChange externalSettings,
              Launch appA 1700000000002 origin]
           (initialDesktop [appA] DEFAULT_SETTINGS)) = 101"
  by (simp add: Let_def initialDesktop_def DEFAULT_SETTINGS_def externalSettings_def
      launchApp_def handleSettingsChange_def appA_def shortcut_def)

text \<open>
  C2, amended. In every state \<open>s\<close> the shell reaches from its initial state, launching a
  shortcut whose id already has an open window, whatever the phase of that window, adds no
  window: the collection keeps its length and holds exactly one window of that shortcut;
  every window keeps its id and its app, every window of another shortcut is unchanged, and
  so are the mounted components (phase, position, drag state) and the pending timers. With
  \<^verbatim>\<open>openInIframe\<close> on, the counter advances by one and the window of the shortcut gets
  the new value as its zIndex and is otherwise unchanged; with \<^verbatim>\<open>openInIframe\<close> off, the
  counter and the whole collection are unchanged.
\<close>

theorem single_window_per_app:
  "let s = run evs (initialDesktop as st);
       l = step (Launch a now rnd) s
   in (\<exists>w \<in> set (openWindows s). id_app (app w) = id_app a) \<longrightarrow>
        length (openWindows l) = length (openWindows s) \<and>
        length (filter (\<lambda>w. id_app (app w) = id_app a) (openWindows l)) = 1 \<and>
        (\<forall>i < length (openWindows s).
           id_win (openWindows l ! i) = id_win (openWindows s ! i) \<and>
           app (openWindows l ! i) = app (openWindows s ! i) \<and>
           (id_app (app (openWindows s ! i)) \<noteq> id_app a \<longrightarrow>
              openWindows l ! i = openWindows s ! i)) \<and>
        mounted l = mounted s \<and>
        timers l = timers s \<and>
        (openInIframe (localSettings s) \<longrightarrow>
           topZ l = topZ s + 1 \<and>
           (\<forall>i < length (openWindows s).
              id_app (app (openWindows s ! i)) = id_app a \<longrightarrow>
                openWindows l ! i = (openWindows s ! i)\<lparr>zIndex := topZ s + 1\<rparr>)) \<and>
        (\<not> openInIframe (localSettings s) \<longrightarrow>
           topZ l = topZ s \<and> openWindows l = openWindows s)"
proof -
  define s where "s = run evs (initialDesktop as st)"
  define l where "l = step (Launch a now rnd) s"
  have one: "oneWindowPerApp s"
    unfolding s_def by (rule oneWindowPerApp_run) (rule oneWindowPerApp_initial)
  have mm: "mountedMatches s"
    unfolding s_def by (rule mountedMatches_run) (rule mountedMatches_initial)
  have "length (openWindows l) = length (openWindows s) \<and>
        length (filter (\<lambda>w. id_app (app w) = id_app a) (openWindows l)) = 1 \<and>
        (\<forall>i < length (openWindows s).
           id_win (openWindows l ! i) = id_win (openWindows s ! i) \<and>
           app (openWindows l ! i) = app (openWindows s ! i) \<and>
           (id_app (app (openWindows s ! i)) \<noteq> id_app a \<longrightarrow>
              openWindows l ! i = openWindows s ! i)) \<and>
        mounted l = mounted s \<and>
        timers l = timers s \<and>
        (openInIframe (localSettings s) \<longrightarrow>
           topZ l = topZ s + 1 \<and>
           (\<forall>i < length (openWindows s).
              id_app (app (openWindows s ! i)) = id_app a \<longrightarrow>
                openWindows l ! i = (openWindows s ! i)\<lparr>zIndex := topZ s + 1\<rparr>)) \<and>
        (\<not> openInIframe (localSettings s) \<longrightarrow>
           topZ l = topZ s \<and> openWindows l = openWindows s)"
    if ex: "\<exists>w \<in> set (openWindows s). id_app (app w) = id_app a"
  proof -
    from ex obtain w where w: "w \<in> set (openWindows s)" "id_app (app w) = id_app a" by blast
    let ?f = "\<lambda>w. if id_app (app w) = id_app a then w\<lparr>zIndex := topZ s + 1\<rparr> else w"
    have ws: "openWindows l =
        (if openInIframe (localSettings s) then map ?f (openWindows s) else openWindows s)"
      unfolding l_def using relaunch_windows [OF w] by simp
    have len: "length (openWindows l) = length (openWindows s)"
      using ws by simp
    have apps_same: "map (\<lambda>w. id_app (app w)) (openWindows l) = map (\<lambda>w. id_app (app w)) (openWindows s)"
      using ws by (simp add: comp_def)
    have ids_same: "map id_win (openWindows l) = map id_win (openWindows s)"
      using ws by (simp add: comp_def)
    have "length (filter (\<lambda>w. id_app (app w) = id_app a) (openWindows l)) =
          length (filter (\<lambda>v. v = id_app a) (map (\<lambda>w. id_app (app w)) (openWindows l)))"
      by (simp add: filter_map comp_def)
    also have "\<dots> = length (filter (\<lambda>w. id_app (app w) = id_app a) (openWindows s))"
      unfolding apps_same by (simp add: filter_map comp_def)
    also have "\<dots> = 1"
      using length_filter_distinct_key [of "\<lambda>w. id_app (app w)" "openWindows s" w] one w
      by (simp add: oneWindowPerApp_def)
    finally have single: "length (filter (\<lambda>w. id_app (app w) = id_app a) (openWindows l)) = 1" .
    have nth: "\<forall>i < length (openWindows s).
           id_win (openWindows l ! i) = id_win (openWindows s ! i) \<and>
           app (openWindows l ! i) = app (openWindows s ! i) \<and>
           (id_app (app (openWindows s ! i)) \<noteq> id_app a \<longrightarrow>
              openWindows l ! i = openWindows s ! i)"
      using ws by simp
    have "mounted (render rnd (launchApp a now s)) = mounted s"
    proof (rule render_same_keys [OF mm])
      show "map id_win (openWindows (launchApp a now s)) = map id_win (openWindows s)"
        using ids_same unfolding l_def by simp
    qed simp
    then have mt: "mounted l = mounted s" unfolding l_def by simp
    have tm: "timers l = timers s" unfolding l_def by simp
    have raise: "openInIframe (localSettings s) \<longrightarrow>
           topZ l = topZ s + 1 \<and>
           (\<forall>i < length (openWindows s).
              id_app (app (openWindows s ! i)) = id_app a \<longrightarrow>
                openWindows l ! i = (openWindows s ! i)\<lparr>zIndex := topZ s + 1\<rparr>)"
      using ws launch_topZ [of s a now rnd] unfolding l_def by simp
    have "\<not> openInIframe (localSettings s) \<longrightarrow> topZ (launchApp a now s) = topZ s"
      by (simp add: launchApp_def)
    then have ext: "\<not> openInIframe (localSettings s) \<longrightarrow>
           topZ l = topZ s \<and> openWindows l = openWindows s"
      using ws unfolding l_def by simp
    from len single nth mt tm raise ext show ?thesis by (intro conjI)
  qed
  then show ?thesis
    unfolding Let_def s_def [symmetric] l_def [symmetric] by (rule impI)
qed

theorem single_window_per_app_witness:
  "(let s = run [Launch appA 1700000000000 origin, Launch appB 1700000000001 origin,
                 Minimize ''a1700000000000'', Fire 0]
              (initialDesktop [appA, appB] DEFAULT_SETTINGS);
        l = step (Launch appA 1700000000002 origin) s
    in (\<exists>w \<in> set (openWindows s). id_app (app w) = id_app appA) \<and>
       openInIframe (localSettings s) \<and>
       phaseOf s ''a1700000000000'' = Some Minimized \<and>
       map zIndex (openWindows s) = [101, 102] \<and>
       map id_win (openWindows l) = [''a1700000000000'', ''b1700000000001''] \<and>
       map zIndex (openWindows l) = [103, 102] \<and>
       length (filter (\<lambda>w. id_app (app w) = id_app appA) (openWindows l)) = 1 \<and>
       phaseOf l ''a1700000000000'' = Some Minimized) \<and>
   (let s = run [Launch appA 1700000000000 origin, SettingsChange externalSettings]
              (initialDesktop [appA] DEFAULT_SETTINGS);
        l = step (Launch appA 1700000000002 origin) s
    in (\<exists>w \<in> set (openWindows s). id_app (app w) = id_app appA) \<and>
       \<not> openInIframe (localSettings s) \<and>
       map zIndex (openWindows s) = [101] \<and>
       topZ s = 101 \<and>
       length (filter (\<lambda>w. id_app (app w) = id_app appA) (openWindows l)) = 1 \<and>
       map zIndex (openWindows l) = [101] \<and>
       topZ l = 101)"
proof -
  define s where "s = run [Launch appA 1700000000000 origin, Launch appB 1700000000001 origin,
                Minimize ''a1700000000000'', Fire 0]
             (initialDesktop [appA, appB] DEFAULT_SETTINGS)"
  define l where "l = step (Launch appA 1700000000002 origin) s"
  have s_ws: "openWindows s =
      [\<lparr>id_win = ''a1700000000000'', app = appA, zIndex = 101\<rparr>,
       \<lparr>id_win = ''b1700000000001'', app = appB, zIndex = 102\<rparr>]"
    and s_top: "topZ s = 102" and s_ifr: "openInIframe (localSettings s)"
    unfolding s_def
    by (simp_all add: Let_def initialDesktop_def DEFAULT_SETTINGS_def launchApp_def
        appA_def appB_def shortcut_def string_of_nat.simps)
  have s_ph: "phaseOf s ''a1700000000000'' = Some Minimized"
    unfolding s_def
    by (simp add: phaseOf_def Let_def initialDesktop_def DEFAULT_SETTINGS_def launchApp_def
        render_def mountOpened_def unmountClosed_def onWindow_def fireTimer_def
        handleMinimize_def setPhase_def mountAppWindow_def
        appA_def appB_def shortcut_def string_of_nat.simps)
  have ex: "\<exists>w \<in> set (openWindows s). id_app (app w) = id_app appA"
    using s_ws by simp
  have l_ws: "openWindows l =
      [\<lparr>id_win = ''a1700000000000'', app = appA, zIndex = 103\<rparr>,
       \<lparr>id_win = ''b1700000000001'', app = appB, zIndex = 102\<rparr>]"
    unfolding l_def using s_ws s_top s_ifr
    by (simp add: launchApp_def Let_def appA_def appB_def shortcut_def)
  have t: "(\<exists>w \<in> set (openWindows s). id_app (app w) = id_app appA) \<longrightarrow>
      length (openWindows l) = length (openWindows s) \<and>
      length (filter (\<lambda>w. id_app (app w) = id_app appA) (openWindows l)) = 1 \<and>
      (\<forall>i < length (openWindows s).
           id_win (openWindows l ! i) = id_win (openWindows s ! i) \<and>
           app (openWindows l ! i) = app (openWindows s ! i) \<and>
           (id_app (app (openWindows s ! i)) \<noteq> id_app appA \<longrightarrow>
              openWindows l ! i = openWindows s ! i)) \<and>
      mounted l = mounted s \<and> timers l = timers s \<and>
      (openInIframe (localSettings s) \<longrightarrow>
           topZ l = topZ s + 1 \<and>
           (\<forall>i < length (openWindows s).
              id_app (app (openWindows s ! i)) = id_app appA \<longrightarrow>
                openWindows l ! i = (openWindows s ! i)\<lparr>zIndex := topZ s + 1\<rparr>)) \<and>
      (\<not> openInIframe (localSettings s) \<longrightarrow>
           topZ l = topZ s \<and> openWindows l = openWindows s)"
    using single_window_per_app [of "[Launch appA 1700000000000 origin,
      Launch appB 1700000000001 origin, Minimize ''a1700000000000'', Fire 0]"
      "[appA, appB]" DEFAULT_SETTINGS appA 1700000000002 origin]
    unfolding Let_def s_def l_def .
  from t ex have one: "length (filter (\<lambda>w. id_app (app w) = id_app appA) (openWindows l)) = 1"
    by blast
  from t ex have "mounted l = mounted s" by blast
  then have l_ph: "phaseOf l ''a1700000000000'' = Some Minimized"
    using s_ph by (simp add: phaseOf_def)
  have part1: "let s = run [Launch appA 1700000000000 origin, Launch appB 1700000000001 origin,
                 Minimize ''a1700000000000'', Fire 0]
              (initialDesktop [appA, appB] DEFAULT_SETTINGS);
        l = step (Launch appA 1700000000002 origin) s
    in (\<exists>w \<in> set (openWindows s). id_app (app w) = id_app appA) \<and>
       openInIframe (localSettings s) \<and>
       phaseOf s ''a1700000000000'' = Some Minimized \<and>
       map zIndex (openWindows s) = [101, 102] \<and>
       map id_win (openWindows l) = [''a1700000000000'', ''b1700000000001''] \<and>
       map zIndex (openWindows l) = [103, 102] \<and>
       length (filter (\<lambda>w. id_app (app w) = id_app appA) (openWindows l)) = 1 \<and>
       phaseOf l ''a1700000000000'' = Some Minimized"
    unfolding Let_def s_def [symmetric] l_def [symmetric]
    using ex s_ifr s_ph s_ws l_ws one l_ph by simp
  define x where "x = run [Launch appA 1700000000000 origin, SettingsChange externalSettings]
              (initialDesktop [appA] DEFAULT_SETTINGS)"
  define y where "y = step (Launch appA 1700000000002 origin) x"
  have x_ws: "openWindows x = [\<lparr>id_win = ''a1700000000000'', app = appA, zIndex = 101\<rparr>]"
    and x_top: "topZ x = 101" and x_ext: "\<not> openInIframe (localSettings x)"
    unfolding x_def
    by (simp_all add: Let_def initialDesktop_def DEFAULT_SETTINGS_def externalSettings_def
        launchApp_def handleSettingsChange_def appA_def shortcut_def string_of_nat.simps)
  have x_ex: "\<exists>w \<in> set (openWindows x). id_app (app w) = id_app appA"
    using x_ws by simp
  have u: "(\<exists>w \<in> set (openWindows x). id_app (app w) = id_app appA) \<longrightarrow>
      length (openWindows y) = length (openWindows x) \<and>
      length (filter (\<lambda>w. id_app (app w) = id_app appA) (openWindows y)) = 1 \<and>
      (\<forall>i < length (openWindows x).
           id_win (openWindows y ! i) = id_win (openWindows x ! i) \<and>
           app (openWindows y ! i) = app (openWindows x ! i) \<and>
           (id_app (app (openWindows x ! i)) \<noteq> id_app appA \<longrightarrow>
              openWindows y ! i = openWindows x ! i)) \<and>
      mounted y = mounted x \<and> timers y = timers x \<and>
      (openInIframe (localSettings x) \<longrightarrow>
           topZ y = topZ x + 1 \<and>
           (\<forall>i < length (openWindows x).
              id_app (app (openWindows x ! i)) = id_app appA \<longrightarrow>
                openWindows y ! i = (openWindows x ! i)\<lparr>zIndex := topZ x + 1\<rparr>)) \<and>
      (\<not> openInIframe (localSettings x) \<longrightarrow>
           topZ y = topZ x \<and> openWindows y = openWindows x)"
    using single_window_per_app [of "[Launch appA 1700000000000 origin,
      SettingsChange externalSettings]" "[appA]" DEFAULT_SETTINGS appA 1700000000002 origin]
    unfolding Let_def x_def y_def .
  from u x_ex have y_one:
    "length (filter (\<lambda>w. id_app (app w) = id_app appA) (openWindows y)) = 1"
    by blast
  from u x_ex x_ext have y_same: "topZ y = topZ x \<and> openWindows y = openWindows x"
    by blast
  have part2: "let s = run [Launch appA 1700000000000 origin, SettingsChange externalSettings]
              (initialDesktop [appA] DEFAULT_SETTINGS);
        l = step (Launch appA 1700000000002 origin) s
    in (\<exists>w \<in> set (openWindows s). id_app (app w) = id_app appA) \<and>
       \<not> openInIframe (localSettings s) \<and>
       map zIndex (openWindows s) = [101] \<and>
       topZ s = 101 \<and>
       length (filter (\<lambda>w. id_app (app w) = id_app appA) (openWindows l)) = 1 \<and>
       map zIndex (openWindows l) = [101] \<and>
       topZ l = 101"
    unfolding Let_def x_def [symmetric] y_def [symmetric]
    using x_ex x_ext x_ws x_top y_one y_same by simp
  from part1 part2 show ?thesis by (rule conjI)
qed

section \<open>Closing a window\<close>

lemma absent_close: "absent k (step (Close k) s)"
  by (auto simp: absent_def closeWindow_def unmountClosed_def)

lemma absent_onWindow: "absent k s \<Longrightarrow> absent k (onWindow k' h s)"
  by (auto simp: absent_def onWindow_def split: option.splits prod.splits)

lemma absent_onAllWindows: "absent k s \<Longrightarrow> absent k (onAllWindows h s)"
  by (simp add: absent_def onAllWindows_def)

lemma absent_fireTimer: "absent k s \<Longrightarrow> absent k (fireTimer i s)"
  by (auto simp: absent_def fireTimer_def Let_def split: option.splits prod.splits)

lemma absent_focusWindow: "absent k s \<Longrightarrow> absent k (focusWindow k' s)"
  by (simp add: absent_def)

lemma absent_render: "k \<notin> set (map id_win (openWindows s)) \<Longrightarrow> absent k (render rnd s)"
  by (simp add: absent_def render_def mountOpened_def unmountClosed_def)

lemma absent_launch:
  assumes "absent k s" and "id_app a @ string_of_nat now \<noteq> k"
  shows "absent k (step (Launch a now rnd) s)"
proof -
  from assms have "k \<notin> set (map id_win (openWindows (launchApp a now s)))"
    by (auto simp: absent_def launchApp_def Let_def)
  then show ?thesis by (simp add: absent_render)
qed

lemma absent_step: "absent k s \<Longrightarrow> \<not> recreates k e \<Longrightarrow> absent k (step e s)"
proof (cases e)
  case (Launch a now rnd)
  assume "absent k s" "\<not> recreates k e"
  with Launch show ?thesis by (simp add: absent_launch del: step.simps)
next
  case (Close k')
  assume "absent k s"
  then show ?thesis using Close
    by (auto simp: absent_def closeWindow_def unmountClosed_def)
next
  case (Focus k')
  assume "absent k s"
  then show ?thesis using Focus by (simp add: absent_focusWindow)
next
  case (MouseDown k' e)
  assume "absent k s"
  then show ?thesis
    using MouseDown by (simp add: absent_focusWindow absent_onWindow split: option.splits)
next
  case (DeleteApp appId)
  assume "absent k s"
  then show ?thesis using DeleteApp by (simp add: absent_def)
next
  case (SettingsChange st)
  assume "absent k s"
  then show ?thesis using SettingsChange by (simp add: absent_def)
qed (simp_all add: absent_onWindow absent_onAllWindows absent_fireTimer)

lemma absent_run:
  "absent k s \<Longrightarrow> \<forall>e \<in> set evs. \<not> recreates k e \<Longrightarrow> absent k (run evs s)"
  by (induction evs arbitrary: s) (simp_all add: absent_step del: step.simps)

text \<open>
  C7. Close during a pending transition is final. Closing the window with id \<open>k\<close>, in any
  state \<open>s\<close> and so also while the timer of its Minimizing-to-Minimized transition is
  pending, removes it for good: after any later events that do not launch a window under
  the very same id (timer callbacks firing in any order among them), no open window has id
  \<open>k\<close> and no component is mounted under \<open>k\<close>. A timer that fires then leaves the
  collection as it is and mounts nothing. The handlers are total functions of the state:
  none of them has a failing branch.
\<close>

theorem close_is_final:
  "\<forall>e \<in> set evs. \<not> recreates k e \<Longrightarrow>
     (let c = step (Close k) s;
          s' = run evs c
      in k \<notin> set (map id_win (openWindows s')) \<and>
         mounted s' k = None \<and>
         (\<forall>i. openWindows (step (Fire i) s') = openWindows s' \<and>
              mounted (step (Fire i) s') k = None))"
proof -
  assume ok: "\<forall>e \<in> set evs. \<not> recreates k e"
  define s' where "s' = run evs (step (Close k) s)"
  have a: "absent k s'"
    unfolding s'_def using absent_close ok by (rule absent_run)
  have "absent k (step (Fire i) s')" for i
    using a by (simp add: absent_fireTimer)
  then have "\<forall>i. openWindows (step (Fire i) s') = openWindows s' \<and>
              mounted (step (Fire i) s') k = None"
    by (simp add: absent_def)
  with a show ?thesis
    unfolding Let_def s'_def [symmetric] by (simp add: absent_def del: step.simps)
qed

theorem close_is_final_witness:
  "let s = run [Launch appA 1700000000000 origin, Minimize ''a1700000000000'']
             (initialDesktop [appA] DEFAULT_SETTINGS);
       s' = run [Fire 0] (step (Close ''a1700000000000'') s)
   in (\<forall>e \<in> set [Fire 0]. \<not> recreates ''a1700000000000'' e) \<and>
      map id_win (openWindows s) = [''a1700000000000''] \<and>
      phaseOf s ''a1700000000000'' = Some Minimizing \<and>
      timers s = [\<lparr>target = ''a1700000000000'', inst = 0, delay = 260, setsPhase = Minimized\<rparr>] \<and>
      ''a1700000000000'' \<notin> set (map id_win (openWindows s')) \<and>
      mounted s' ''a1700000000000'' = None \<and>
      timers s' = []"
proof -
  define s where "s = run [Launch appA 1700000000000 origin, Minimize ''a1700000000000'']
             (initialDesktop [appA] DEFAULT_SETTINGS)"
  define s' where "s' = run [Fire 0] (step (Close ''a1700000000000'') s)"
  have h: "\<forall>e \<in> set [Fire 0]. \<not> recreates ''a1700000000000'' e" by simp
  have s_ws: "map id_win (openWindows s) = [''a1700000000000'']"
    unfolding s_def
    by (simp add: Let_def initialDesktop_def DEFAULT_SETTINGS_def launchApp_def
        appA_def shortcut_def string_of_nat.simps)
  have s_ph: "phaseOf s ''a1700000000000'' = Some Minimizing"
    and s_tm: "timers s =
      [\<lparr>target = ''a1700000000000'', inst = 0, delay = 260, setsPhase = Minimized\<rparr>]"
    unfolding s_def
    by (simp_all add: phaseOf_def Let_def initialDesktop_def DEFAULT_SETTINGS_def launchApp_def
        render_def mountOpened_def unmountClosed_def onWindow_def
        handleMinimize_def mountAppWindow_def
        appA_def shortcut_def string_of_nat.simps)
  have s'_tm: "timers s' = []"
    unfolding s'_def using s_tm by (simp add: fireTimer_def Let_def split: option.splits)
  have t: "''a1700000000000'' \<notin> set (map id_win (openWindows s')) \<and>
      mounted s' ''a1700000000000'' = None"
    using close_is_final [OF h, of s] unfolding Let_def s'_def by blast
  show ?thesis
    unfolding Let_def s_def [symmetric] s'_def [symmetric]
    using h s_ws s_ph s_tm s'_tm t by simp
qed

section \<open>Minimize and restore\<close>

lemma minimize_mounted:
  "mounted s k = Some (g, w) \<Longrightarrow>
     step (Minimize k) s =
       s\<lparr> mounted := (mounted s)(k \<mapsto> (g, w\<lparr>phase := Minimizing\<rparr>)),
           timers := timers s @ [\<lparr>target = k, inst = g, delay = 260, setsPhase = Minimized\<rparr>] \<rparr>"
  by (simp add: onWindow_def handleMinimize_def)

lemma restore_mounted:
  "mounted s k = Some (g, w) \<Longrightarrow>
     step (Restore k) s =
       s\<lparr> mounted := (mounted s)(k \<mapsto> (g, w\<lparr>phase := Restoring\<rparr>)),
           timers := timers s @ [\<lparr>target = k, inst = g, delay = 320, setsPhase = Open\<rparr>] \<rparr>"
  by (simp add: onWindow_def handleRestore_def)

lemma filter_remove_nth_other:
  "i < length xs \<Longrightarrow> \<not> P (xs ! i) \<Longrightarrow>
     filter P (take i xs) @ filter P (drop (Suc i) xs) = filter P xs"
proof -
  assume i: "i < length xs" and n: "\<not> P (xs ! i)"
  from i have "xs = take i xs @ xs ! i # drop (Suc i) xs" by (rule id_take_nth_drop)
  then have "filter P xs = filter P (take i xs @ xs ! i # drop (Suc i) xs)" by simp
  with n show ?thesis by simp
qed

lemma filter_remove_nth_single:
  assumes "i < length xs" and "P (xs ! i)" and "filter P xs = [x]"
  shows "xs ! i = x \<and> filter P (take i xs) = [] \<and> filter P (drop (Suc i) xs) = []"
proof -
  from assms(1) have "xs = take i xs @ xs ! i # drop (Suc i) xs" by (rule id_take_nth_drop)
  then have "filter P xs = filter P (take i xs @ xs ! i # drop (Suc i) xs)" by simp
  with assms(2) have "filter P xs = filter P (take i xs) @ xs ! i # filter P (drop (Suc i) xs)"
    by simp
  with assms(3) have e: "filter P (take i xs) @ xs ! i # filter P (drop (Suc i) xs) = [x]"
    by simp
  then have "filter P (take i xs) = []"
    by (cases "filter P (take i xs)") simp_all
  with e show ?thesis by simp
qed

lemma foreign_fire_frame:
  assumes "i < length (timers s)" and "target (timers s ! i) \<noteq> k"
  shows "mounted (fireTimer i s) k = mounted s k"
    and "pendingFor (fireTimer i s) k = pendingFor s k"
proof -
  from assms show "mounted (fireTimer i s) k = mounted s k"
    by (simp add: fireTimer_def Let_def split: option.splits)
  have "timers (fireTimer i s) = take i (timers s) @ drop (Suc i) (timers s)"
    using assms(1) by (simp add: fireTimer_def Let_def split: option.splits)
  with assms show "pendingFor (fireTimer i s) k = pendingFor s k"
    by (simp add: pendingFor_def filter_remove_nth_other)
qed

lemma foreignFires_frame:
  "foreignFires k is s \<Longrightarrow>
     mounted (run (map Fire is) s) k = mounted s k \<and>
     pendingFor (run (map Fire is) s) k = pendingFor s k \<and>
     openWindows (run (map Fire is) s) = openWindows s \<and>
     topZ (run (map Fire is) s) = topZ s"
proof (induction "is" arbitrary: s)
  case Nil
  then show ?case by simp
next
  case (Cons i "is")
  from Cons.prems have i: "i < length (timers s)" "target (timers s ! i) \<noteq> k"
    and r: "foreignFires k is (fireTimer i s)" by simp_all
  from Cons.IH [OF r] foreign_fire_frame [OF i] show ?case by simp
qed

lemma own_fire:
  assumes m: "mounted s k = Some (g, w)"
    and p: "pendingFor s k = [\<lparr>target = k, inst = g, delay = d, setsPhase = q\<rparr>]"
    and i: "i < length (timers s)" and t: "target (timers s ! i) = k"
  shows "mounted (fireTimer i s) k = Some (g, w\<lparr>phase := q\<rparr>)"
    and "pendingFor (fireTimer i s) k = []"
    and "openWindows (fireTimer i s) = openWindows s"
    and "topZ (fireTimer i s) = topZ s"
proof -
  from filter_remove_nth_single [of i "timers s" "\<lambda>t. target t = k", OF i t]
    p [unfolded pendingFor_def]
  have e: "timers s ! i = \<lparr>target = k, inst = g, delay = d, setsPhase = q\<rparr>"
    and f: "filter (\<lambda>t. target t = k) (take i (timers s)) = []"
      "filter (\<lambda>t. target t = k) (drop (Suc i) (timers s)) = []"
    by simp_all
  from m i e show "mounted (fireTimer i s) k = Some (g, w\<lparr>phase := q\<rparr>)"
    by (simp add: fireTimer_def Let_def setPhase_def)
  from m i e f show "pendingFor (fireTimer i s) k = []"
    by (simp add: fireTimer_def Let_def pendingFor_def)
  show "openWindows (fireTimer i s) = openWindows s" "topZ (fireTimer i s) = topZ s"
    by simp_all
qed

lemma own_request:
  assumes m: "mounted s k = Some (g, w)" and p: "pendingFor s k = []"
  shows "mounted (step (Minimize k) s) k = Some (g, w\<lparr>phase := Minimizing\<rparr>)"
    and "pendingFor (step (Minimize k) s) k =
           [\<lparr>target = k, inst = g, delay = 260, setsPhase = Minimized\<rparr>]"
    and "mounted (step (Restore k) s) k = Some (g, w\<lparr>phase := Restoring\<rparr>)"
    and "pendingFor (step (Restore k) s) k =
           [\<lparr>target = k, inst = g, delay = 320, setsPhase = Open\<rparr>]"
  using m p by (simp_all add: minimize_mounted restore_mounted pendingFor_def del: step.simps)

text \<open>
  C6 as stated fails when an older timer of the same window is still pending, which the
  handlers allow (they neither check the phase nor clear a timer). After a double click on
  minimize and two restores the window is in phase Open with a restore timer due at 820 ms.
  Minimize at 650 ms schedules its timer for 910 ms; the restore timer fires first and puts
  the window back to Open, then the minimize timer makes it Minimized; Restore after that
  and its timer end in Open. The phase passes through Open, Minimizing, Open, Minimized,
  Restoring, Open.
\<close>

theorem round_trip_pending_counterexample:
  "phaseOf doubleClicked ''a1700000000000'' = Some Open \<and>
   map setsPhase (pendingFor doubleClicked ''a1700000000000'') = [Open] \<and>
   map delay (timers (run [Minimize ''a1700000000000''] doubleClicked)) = [320, 260] \<and>
   phaseOf (run [Minimize ''a1700000000000''] doubleClicked) ''a1700000000000''
     = Some Minimizing \<and>
   phaseOf (run [Minimize ''a1700000000000'', Fire 0] doubleClicked) ''a1700000000000''
     = Some Open \<and>
   phaseOf (run [Minimize ''a1700000000000'', Fire 0, Fire 0] doubleClicked) ''a1700000000000''
     = Some Minimized \<and>
   phaseOf (run [Minimize ''a1700000000000'', Fire 0, Fire 0, Restore ''a1700000000000'']
              doubleClicked) ''a1700000000000''
     = Some Restoring \<and>
   phaseOf (run [Minimize ''a1700000000000'', Fire 0, Fire 0, Restore ''a1700000000000'', Fire 0]
              doubleClicked) ''a1700000000000''
     = Some Open"
  by (simp add: doubleClicked_def phaseOf_def pendingFor_def Let_def initialDesktop_def
        DEFAULT_SETTINGS_def launchApp_def
        render_def mountOpened_def unmountClosed_def onWindow_def fireTimer_def
        handleMinimize_def handleRestore_def setPhase_def mountAppWindow_def
        appA_def shortcut_def string_of_nat.simps)

text \<open>
  C6, amended. Minimize/restore round trip. For a mounted window in phase Open with no timer
  of its own pending: Minimize, the firing of the timer that Minimize scheduled (260 ms),
  Restore, and the firing of the timer that Restore scheduled (320 ms) take the phase
  through Open, Minimizing, Minimized, Restoring, Open in this order, whatever pending
  timers of other windows fire in between and in whatever order. The position, the
  open-window collection (so the app reference and the zIndex) and the counter are the same
  in every state on the way; at the end the window's component is as it was at the start
  and again no timer of its own is pending.
\<close>

theorem minimize_restore_round_trip:
  assumes m: "mounted s k = Some (g, w)" and o: "phase w = Open" and p: "pendingFor s k = []"
  shows "let s1 = step (Minimize k) s;
             s1' = run (map Fire is1) s1;
             s2 = step (Fire i1) s1';
             s2' = run (map Fire is2) s2;
             s3 = step (Restore k) s2';
             s3' = run (map Fire is3) s3;
             s4 = step (Fire i2) s3'
         in foreignFires k is1 s1 \<and> i1 < length (timers s1') \<and> target (timers s1' ! i1) = k \<and>
            foreignFires k is2 s2 \<and>
            foreignFires k is3 s3 \<and> i2 < length (timers s3') \<and> target (timers s3' ! i2) = k \<longrightarrow>
              map (\<lambda>x. phaseOf x k) [s, s1, s1', s2, s2', s3, s3', s4] =
                [Some Open, Some Minimizing, Some Minimizing, Some Minimized, Some Minimized,
                 Some Restoring, Some Restoring, Some Open] \<and>
              pendingFor s1 k = [\<lparr>target = k, inst = g, delay = 260, setsPhase = Minimized\<rparr>] \<and>
              pendingFor s3 k = [\<lparr>target = k, inst = g, delay = 320, setsPhase = Open\<rparr>] \<and>
              (\<forall>x \<in> set [s1, s1', s2, s2', s3, s3', s4].
                 posOf x k = Some (pos w) \<and> openWindows x = openWindows s \<and> topZ x = topZ s) \<and>
              mounted s4 k = mounted s k \<and>
              pendingFor s4 k = []"
proof -
  define s1 where "s1 = step (Minimize k) s"
  define s1' where "s1' = run (map Fire is1) s1"
  define s2 where "s2 = step (Fire i1) s1'"
  define s2' where "s2' = run (map Fire is2) s2"
  define s3 where "s3 = step (Restore k) s2'"
  define s3' where "s3' = run (map Fire is3) s3"
  define s4 where "s4 = step (Fire i2) s3'"
  have "map (\<lambda>x. phaseOf x k) [s, s1, s1', s2, s2', s3, s3', s4] =
                [Some Open, Some Minimizing, Some Minimizing, Some Minimized, Some Minimized,
                 Some Restoring, Some Restoring, Some Open] \<and>
              pendingFor s1 k = [\<lparr>target = k, inst = g, delay = 260, setsPhase = Minimized\<rparr>] \<and>
              pendingFor s3 k = [\<lparr>target = k, inst = g, delay = 320, setsPhase = Open\<rparr>] \<and>
              (\<forall>x \<in> set [s1, s1', s2, s2', s3, s3', s4].
                 posOf x k = Some (pos w) \<and> openWindows x = openWindows s \<and> topZ x = topZ s) \<and>
              mounted s4 k = mounted s k \<and>
              pendingFor s4 k = []"
    if ff1: "foreignFires k is1 s1" and i1: "i1 < length (timers s1')" "target (timers s1' ! i1) = k"
      and ff2: "foreignFires k is2 s2"
      and ff3: "foreignFires k is3 s3" and i2: "i2 < length (timers s3')" "target (timers s3' ! i2) = k"
  proof -
    have m1: "mounted s1 k = Some (g, w\<lparr>phase := Minimizing\<rparr>)"
      and p1: "pendingFor s1 k = [\<lparr>target = k, inst = g, delay = 260, setsPhase = Minimized\<rparr>]"
      unfolding s1_def using own_request [OF m p] by simp_all
    have f1: "openWindows s1 = openWindows s" "topZ s1 = topZ s"
      unfolding s1_def by simp_all
    note a = foreignFires_frame [OF ff1, folded s1'_def]
    from a m1 p1 f1 have m1': "mounted s1' k = Some (g, w\<lparr>phase := Minimizing\<rparr>)"
      and p1': "pendingFor s1' k = [\<lparr>target = k, inst = g, delay = 260, setsPhase = Minimized\<rparr>]"
      and f1': "openWindows s1' = openWindows s" "topZ s1' = topZ s"
      by simp_all
    have m2: "mounted s2 k = Some (g, w\<lparr>phase := Minimized\<rparr>)"
      and p2: "pendingFor s2 k = []"
      and f2: "openWindows s2 = openWindows s" "topZ s2 = topZ s"
      unfolding s2_def using own_fire [OF m1' p1' i1] f1' by simp_all
    note b = foreignFires_frame [OF ff2, folded s2'_def]
    from b m2 p2 f2 have m2': "mounted s2' k = Some (g, w\<lparr>phase := Minimized\<rparr>)"
      and p2': "pendingFor s2' k = []"
      and f2': "openWindows s2' = openWindows s" "topZ s2' = topZ s"
      by simp_all
    have m3: "mounted s3 k = Some (g, w\<lparr>phase := Restoring\<rparr>)"
      and p3: "pendingFor s3 k = [\<lparr>target = k, inst = g, delay = 320, setsPhase = Open\<rparr>]"
      unfolding s3_def using own_request [OF m2' p2'] by simp_all
    have f3: "openWindows s3 = openWindows s" "topZ s3 = topZ s"
      unfolding s3_def using f2' by simp_all
    note c = foreignFires_frame [OF ff3, folded s3'_def]
    from c m3 p3 f3 have m3': "mounted s3' k = Some (g, w\<lparr>phase := Restoring\<rparr>)"
      and p3': "pendingFor s3' k = [\<lparr>target = k, inst = g, delay = 320, setsPhase = Open\<rparr>]"
      and f3': "openWindows s3' = openWindows s" "topZ s3' = topZ s"
      by simp_all
    have w: "w\<lparr>phase := Open\<rparr> = w"
      using o by (cases w) simp
    have m4: "mounted s4 k = Some (g, w)"
      and p4: "pendingFor s4 k = []"
      and f4: "openWindows s4 = openWindows s" "topZ s4 = topZ s"
      unfolding s4_def using own_fire [OF m3' p3' i2] f3' w by simp_all
    have ph: "map (\<lambda>x. phaseOf x k) [s, s1, s1', s2, s2', s3, s3', s4] =
                [Some Open, Some Minimizing, Some Minimizing, Some Minimized, Some Minimized,
                 Some Restoring, Some Restoring, Some Open]"
      using m o m1 m1' m2 m2' m3 m3' m4 by (simp add: phaseOf_def)
    have fr: "\<forall>x \<in> set [s1, s1', s2, s2', s3, s3', s4].
                 posOf x k = Some (pos w) \<and> openWindows x = openWindows s \<and> topZ x = topZ s"
      using m1 m1' m2 m2' m3 m3' m4 f1 f1' f2 f2' f3 f3' f4 by (simp add: posOf_def)
    from m m4 have "mounted s4 k = mounted s k" by simp
    with ph p1 p3 fr p4 show ?thesis by (intro conjI)
  qed
  then show ?thesis
    unfolding Let_def s1_def s1'_def s2_def s2'_def s3_def s3'_def s4_def by blast
qed

theorem minimize_restore_round_trip_witness:
  "let s = run [Launch appA 1700000000000 origin, Launch appB 1700000000001 origin,
                Minimize ''b1700000000001'']
             (initialDesktop [appA, appB] DEFAULT_SETTINGS);
       s1 = step (Minimize ''a1700000000000'') s;
       s1' = run (map Fire [0]) s1;
       s2 = step (Fire 0) s1';
       s2' = run (map Fire []) s2;
       s3 = step (Restore ''a1700000000000'') s2';
       s3' = run (map Fire []) s3;
       s4 = step (Fire 0) s3'
   in mounted s ''a1700000000000'' = Some (0, mountAppWindow None origin) \<and>
      phase (mountAppWindow None origin) = Open \<and>
      pendingFor s ''a1700000000000'' = [] \<and>
      map target (timers s) = [''b1700000000001''] \<and>
      foreignFires ''a1700000000000'' [0] s1 \<and>
      0 < length (timers s1') \<and> target (timers s1' ! 0) = ''a1700000000000'' \<and>
      foreignFires ''a1700000000000'' [] s2 \<and>
      foreignFires ''a1700000000000'' [] s3 \<and>
      0 < length (timers s3') \<and> target (timers s3' ! 0) = ''a1700000000000'' \<and>
      map (\<lambda>x. phaseOf x ''a1700000000000'') [s, s1, s1', s2, s2', s3, s3', s4] =
        [Some Open, Some Minimizing, Some Minimizing, Some Minimized, Some Minimized,
         Some Restoring, Some Restoring, Some Open] \<and>
      posOf s4 ''a1700000000000'' = Some \<lparr>px = 80, py = 60\<rparr> \<and>
      pendingFor s4 ''a1700000000000'' = []"
proof -
  define s where
    "s = run [Launch appA 1700000000000 origin, Launch appB 1700000000001 origin,
                Minimize ''b1700000000001'']
             (initialDesktop [appA, appB] DEFAULT_SETTINGS)"
  define s1 where "s1 = step (Minimize ''a1700000000000'') s"
  define s1' where "s1' = run (map Fire [0]) s1"
  define s2 where "s2 = step (Fire 0) s1'"
  define s2' where "s2' = run (map Fire []) s2"
  define s3 where "s3 = step (Restore ''a1700000000000'') s2'"
  define s3' where "s3' = run (map Fire []) s3"
  define s4 where "s4 = step (Fire 0) s3'"
  have h1: "mounted s ''a1700000000000'' = Some (0, mountAppWindow None origin)"
    and tm: "timers s =
      [\<lparr>target = ''b1700000000001'', inst = 1, delay = 260, setsPhase = Minimized\<rparr>]"
    unfolding s_def
    by (simp_all add: Let_def initialDesktop_def DEFAULT_SETTINGS_def launchApp_def
        render_def mountOpened_def unmountClosed_def onWindow_def handleMinimize_def
        appA_def appB_def shortcut_def string_of_nat.simps)
  have h2: "phase (mountAppWindow None origin) = Open"
    by (simp add: mountAppWindow_def)
  have h3: "pendingFor s ''a1700000000000'' = []"
    using tm by (simp add: pendingFor_def)
  have q: "pos (mountAppWindow None origin) = \<lparr>px = 80, py = 60\<rparr>"
    by (simp add: mountAppWindow_def origin_def)
  have t1: "timers s1 =
      [\<lparr>target = ''b1700000000001'', inst = 1, delay = 260, setsPhase = Minimized\<rparr>,
       \<lparr>target = ''a1700000000000'', inst = 0, delay = 260, setsPhase = Minimized\<rparr>]"
    unfolding s1_def using minimize_mounted [OF h1] tm by (simp del: step.simps)
  have t1': "timers s1' =
      [\<lparr>target = ''a1700000000000'', inst = 0, delay = 260, setsPhase = Minimized\<rparr>]"
    unfolding s1'_def using t1 by (simp add: fireTimer_def Let_def split: option.splits)
  have t2: "timers s2' = []"
    unfolding s2'_def s2_def using t1' by (simp add: fireTimer_def Let_def split: option.splits)
  have "mounted s1' ''a1700000000000'' = mounted s1 ''a1700000000000''"
    unfolding s1'_def using foreign_fire_frame(1) [of 0 s1 "''a1700000000000''"] t1 by simp
  then have m1': "mounted s1' ''a1700000000000'' =
      Some (0, (mountAppWindow None origin)\<lparr>phase := Minimizing\<rparr>)"
    unfolding s1_def using minimize_mounted [OF h1] by (simp del: step.simps)
  have m2: "mounted s2' ''a1700000000000'' =
      Some (0, (mountAppWindow None origin)\<lparr>phase := Minimized\<rparr>)"
    unfolding s2'_def s2_def using t1' m1' by (simp add: fireTimer_def Let_def setPhase_def)
  have t3: "length (timers s3') = 1 \<and> target (timers s3' ! 0) = ''a1700000000000''"
    unfolding s3'_def s3_def using t2 restore_mounted [OF m2] by (simp del: step.simps)
  have hyp: "foreignFires ''a1700000000000'' [0] s1 \<and>
      0 < length (timers s1') \<and> target (timers s1' ! 0) = ''a1700000000000'' \<and>
      foreignFires ''a1700000000000'' [] s2 \<and>
      foreignFires ''a1700000000000'' [] s3 \<and>
      0 < length (timers s3') \<and> target (timers s3' ! 0) = ''a1700000000000''"
    using t1 t1' t3 by simp
  have t: "foreignFires ''a1700000000000'' [0] s1 \<and>
      0 < length (timers s1') \<and> target (timers s1' ! 0) = ''a1700000000000'' \<and>
      foreignFires ''a1700000000000'' [] s2 \<and>
      foreignFires ''a1700000000000'' [] s3 \<and>
      0 < length (timers s3') \<and> target (timers s3' ! 0) = ''a1700000000000'' \<longrightarrow>
      map (\<lambda>x. phaseOf x ''a1700000000000'') [s, s1, s1', s2, s2', s3, s3', s4] =
        [Some Open, Some Minimizing, Some Minimizing, Some Minimized, Some Minimized,
         Some Restoring, Some Restoring, Some Open] \<and>
      pendingFor s1 ''a1700000000000'' =
        [\<lparr>target = ''a1700000000000'', inst = 0, delay = 260, setsPhase = Minimized\<rparr>] \<and>
      pendingFor s3 ''a1700000000000'' =
        [\<lparr>target = ''a1700000000000'', inst = 0, delay = 320, setsPhase = Open\<rparr>] \<and>
      (\<forall>x \<in> set [s1, s1', s2, s2', s3, s3', s4].
         posOf x ''a1700000000000'' = Some (pos (mountAppWindow None origin)) \<and>
         openWindows x = openWindows s \<and> topZ x = topZ s) \<and>
      mounted s4 ''a1700000000000'' = mounted s ''a1700000000000'' \<and>
      pendingFor s4 ''a1700000000000'' = []"
    using minimize_restore_round_trip [OF h1 h2 h3, of "[0]" 0 "[]" "[]" 0]
    unfolding Let_def s1_def s1'_def s2_def s2'_def s3_def s3'_def s4_def .
  from t hyp have ph: "map (\<lambda>x. phaseOf x ''a1700000000000'') [s, s1, s1', s2, s2', s3, s3', s4] =
        [Some Open, Some Minimizing, Some Minimizing, Some Minimized, Some Minimized,
         Some Restoring, Some Restoring, Some Open]"
    by blast
  from t hyp have p4: "pendingFor s4 ''a1700000000000'' = []" by blast
  from t hyp have "\<forall>x \<in> set [s1, s1', s2, s2', s3, s3', s4].
         posOf x ''a1700000000000'' = Some (pos (mountAppWindow None origin)) \<and>
         openWindows x = openWindows s \<and> topZ x = topZ s"
    by blast
  then have "posOf s4 ''a1700000000000'' = Some (pos (mountAppWindow None origin))" by simp
  with q have q4: "posOf s4 ''a1700000000000'' = Some \<lparr>px = 80, py = 60\<rparr>" by simp
  have tg: "map target (timers s) = [''b1700000000001'']" using tm by simp
  from h1 h2 h3 tg hyp ph q4 p4 show ?thesis
    unfolding Let_def s_def [symmetric] s1_def [symmetric] s1'_def [symmetric]
      s2_def [symmetric] s2'_def [symmetric] s3_def [symmetric] s3'_def [symmetric]
      s4_def [symmetric]
    by (intro conjI) (elim conjE, assumption)+
qed

text \<open>
  C5 as stated fails: \<^verbatim>\<open>handleMinimize\<close> does not look at the phase. A window that is
  being restored still renders its minimize button; pressing it takes the phase from
  Restoring to Minimizing.
\<close>

theorem minimize_not_guarded_counterexample:
  "phaseOf (run [Launch appA 1700000000000 origin, Minimize ''a1700000000000'', Fire 0,
                 Restore ''a1700000000000'']
              (initialDesktop [appA] DEFAULT_SETTINGS)) ''a1700000000000'' = Some Restoring \<and>
   phaseOf (step (Minimize ''a1700000000000'')
             (run [Launch appA 1700000000000 origin, Minimize ''a1700000000000'', Fire 0,
                   Restore ''a1700000000000'']
                (initialDesktop [appA] DEFAULT_SETTINGS))) ''a1700000000000'' = Some Minimizing"
  by (simp add: phaseOf_def Let_def initialDesktop_def DEFAULT_SETTINGS_def launchApp_def
        render_def mountOpened_def unmountClosed_def onWindow_def fireTimer_def
        handleMinimize_def handleRestore_def setPhase_def mountAppWindow_def
        appA_def shortcut_def string_of_nat.simps)

text \<open>
  C5, amended. Minimize and Restore on a mounted window, in any phase, have no failing
  branch and leave the position, the open-window collection (app and zIndex) and the
  counter unchanged; but the phase is overwritten whatever it was: Minimize sets it to
  Minimizing and schedules the transition to Minimized, Restore sets it to Restoring and
  schedules the transition to Open. The view renders the restore button exactly in phase
  Minimized and the minimize button exactly in the other phases.
\<close>

theorem minimize_restore_unguarded:
  "mounted s k = Some (g, w) \<Longrightarrow>
     (let m = step (Minimize k) s;
          r = step (Restore k) s
      in phaseOf m k = Some Minimizing \<and>
         phaseOf r k = Some Restoring \<and>
         posOf m k = Some (pos w) \<and>
         posOf r k = Some (pos w) \<and>
         openWindows m = openWindows s \<and>
         openWindows r = openWindows s \<and>
         topZ m = topZ s \<and>
         topZ r = topZ s \<and>
         timers m = timers s @ [\<lparr>target = k, inst = g, delay = 260, setsPhase = Minimized\<rparr>] \<and>
         timers r = timers s @ [\<lparr>target = k, inst = g, delay = 320, setsPhase = Open\<rparr>]) \<and>
     (RestoreButton \<in> set (rendered w)) = (phase w = Minimized) \<and>
     (MinimizeButton \<in> set (rendered w)) = (phase w \<noteq> Minimized)"
  by (simp add: minimize_mounted restore_mounted phaseOf_def posOf_def rendered_def Let_def
      del: step.simps)

theorem minimize_restore_unguarded_witness:
  "let s = run [Launch appA 1700000000000 origin] (initialDesktop [appA] DEFAULT_SETTINGS)
   in mounted s ''a1700000000000'' = Some (0, mountAppWindow None origin) \<and>
      phaseOf (step (Restore ''a1700000000000'') s) ''a1700000000000'' = Some Restoring \<and>
      posOf (step (Restore ''a1700000000000'') s) ''a1700000000000'' = Some \<lparr>px = 80, py = 60\<rparr> \<and>
      MinimizeButton \<in> set (rendered (mountAppWindow None origin))"
proof -
  define s where
    "s = run [Launch appA 1700000000000 origin] (initialDesktop [appA] DEFAULT_SETTINGS)"
  have h: "mounted s ''a1700000000000'' = Some (0, mountAppWindow None origin)"
    unfolding s_def
    by (simp add: Let_def initialDesktop_def DEFAULT_SETTINGS_def launchApp_def
        render_def mountOpened_def unmountClosed_def appA_def shortcut_def string_of_nat.simps)
  have p: "pos (mountAppWindow None origin) = \<lparr>px = 80, py = 60\<rparr>"
    and q: "phase (mountAppWindow None origin) = Open"
    by (simp_all add: mountAppWindow_def origin_def)
  note t = minimize_restore_unguarded [OF h, unfolded Let_def]
  from t have "phaseOf (step (Restore ''a1700000000000'') s) ''a1700000000000'' = Some Restoring"
    by (elim conjE)
  moreover from t have "posOf (step (Restore ''a1700000000000'') s) ''a1700000000000'' =
      Some (pos (mountAppWindow None origin))"
    by (elim conjE)
  moreover from t q have "MinimizeButton \<in> set (rendered (mountAppWindow None origin))"
    by (elim conjE) simp
  ultimately show ?thesis
    unfolding Let_def s_def [symmetric] using h p by simp
qed

section \<open>Deleting a shortcut\<close>

text \<open>
  C4 as stated fails: \<^verbatim>\<open>handleDeleteApp\<close> does not touch \<^verbatim>\<open>openWindows\<close>. After launching
  a shortcut and deleting it, the registry is empty and its window is still open.
\<close>

theorem delete_keeps_window_counterexample:
  "apps (run [Launch appA 1700000000000 origin, DeleteApp ''a'']
           (initialDesktop [appA] DEFAULT_SETTINGS)) = [] \<and>
   map (id_app \<circ> app)
     (openWindows (run [Launch appA 1700000000000 origin, DeleteApp ''a'']
                     (initialDesktop [appA] DEFAULT_SETTINGS))) = [''a'']"
  by (simp add: Let_def initialDesktop_def DEFAULT_SETTINGS_def launchApp_def
        render_def mountOpened_def unmountClosed_def handleDeleteApp_def appA_def shortcut_def)

text \<open>
  C4, amended. After \<^verbatim>\<open>handleDeleteApp(appId)\<close> the registry, in memory and as saved, is
  the old one without the shortcuts of that id, so no shortcut with that id is left; the
  open-window collection, the counter, the mounted windows and the pending timers are
  unchanged, so a window of the deleted shortcut stays open.
\<close>

theorem delete_removes_shortcut_only:
  "let d = step (DeleteApp appId) s
   in apps d = filter (\<lambda>a. id_app a \<noteq> appId) (apps s) \<and>
      savedApps d = apps d \<and>
      appId \<notin> set (map id_app (apps d)) \<and>
      openWindows d = openWindows s \<and>
      topZ d = topZ s \<and>
      mounted d = mounted s \<and>
      timers d = timers s"
  by (auto simp: handleDeleteApp_def Let_def)

theorem delete_removes_shortcut_only_witness:
  "let s = run [Launch appA 1700000000000 origin] (initialDesktop [appA, appB] DEFAULT_SETTINGS);
       d = step (DeleteApp ''a'') s
   in map id_app (apps s) = [''a'', ''b''] \<and>
      map id_app (apps d) = [''b''] \<and>
      ''a'' \<notin> set (map id_app (apps d)) \<and>
      openWindows d = openWindows s \<and>
      map (id_app \<circ> app) (openWindows d) = [''a'']"
proof -
  define s where
    "s = run [Launch appA 1700000000000 origin] (initialDesktop [appA, appB] DEFAULT_SETTINGS)"
  define d where "d = step (DeleteApp ''a'') s"
  have a: "apps s = [appA, appB]"
    and w: "map (id_app \<circ> app) (openWindows s) = [''a'']"
    unfolding s_def
    by (simp_all add: Let_def initialDesktop_def DEFAULT_SETTINGS_def launchApp_def
        render_def mountOpened_def unmountClosed_def appA_def shortcut_def)
  have t: "apps d = filter (\<lambda>a. id_app a \<noteq> ''a'') (apps s) \<and>
      savedApps d = apps d \<and> ''a'' \<notin> set (map id_app (apps d)) \<and>
      openWindows d = openWindows s \<and> topZ d = topZ s \<and> mounted d = mounted s \<and>
      timers d = timers s"
    using delete_removes_shortcut_only [of "''a''" s] unfolding Let_def d_def .
  from t a have "map id_app (apps d) = [''b'']"
    by (simp add: appA_def appB_def shortcut_def)
  with t a w show ?thesis
    unfolding Let_def s_def [symmetric] d_def [symmetric]
    by (simp add: appA_def appB_def shortcut_def)
qed

section \<open>Dragging a window\<close>

text \<open>
  C3 as stated fails in a viewport narrower than the window: in a viewport of width 800 the
  upper bound \<^verbatim>\<open>innerWidth - size.w\<close> is \<open>-100\<close>, and the outer \<^verbatim>\<open>Math.max(0, ...)\<close> puts
  the window at 0.
\<close>

theorem drag_small_viewport_counterexample:
  "isDragging grabbed \<and>
   \<not> px (pos (handleMouseMove \<lparr>clientX = 50, clientY = 40\<rparr> smallViewport grabbed))
       \<le> innerWidth smallViewport - size_w"
  by (simp add: grabbed_def handleMouseDown_def handleMouseMove_def mountAppWindow_def
      smallViewport_def size_w_def size_h_def origin_def Let_def)

text \<open>
  C3, amended. After every \<^verbatim>\<open>handleMouseMove\<close> of a window that is being dragged, for
  every pointer position and every state before, the window is still being dragged (so
  the next move is a drag update again) and \<open>0 \<le> x\<close> and \<open>0 \<le> y\<close>;
  \<open>x \<le> innerWidth - 900\<close> whenever the viewport is at least as wide as the window, and
  \<open>y \<le> innerHeight - 580\<close> whenever it is at least as high; in a narrower viewport
  \<open>x = 0\<close>, in a lower one \<open>y = 0\<close>.
\<close>

theorem drag_clamped:
  "isDragging st \<Longrightarrow>
     (let st' = handleMouseMove e vp st
      in isDragging st' \<and>
         0 \<le> px (pos st') \<and>
         0 \<le> py (pos st') \<and>
         (size_w \<le> innerWidth vp \<longrightarrow> px (pos st') \<le> innerWidth vp - size_w) \<and>
         (size_h \<le> innerHeight vp \<longrightarrow> py (pos st') \<le> innerHeight vp - size_h) \<and>
         (innerWidth vp < size_w \<longrightarrow> px (pos st') = 0) \<and>
         (innerHeight vp < size_h \<longrightarrow> py (pos st') = 0))"
  by (simp add: handleMouseMove_def Let_def)

theorem drag_clamped_witness:
  "isDragging grabbed \<and>
   size_w \<le> innerWidth largeViewport \<and>
   size_h \<le> innerHeight largeViewport \<and>
   pos (handleMouseMove \<lparr>clientX = 5000, clientY = - 300\<rparr> largeViewport grabbed)
     = \<lparr>px = 1020, py = 0\<rparr> \<and>
   px (pos (handleMouseMove \<lparr>clientX = 5000, clientY = - 300\<rparr> largeViewport grabbed))
     \<le> innerWidth largeViewport - size_w \<and>
   innerWidth smallViewport < size_w \<and>
   px (pos (handleMouseMove \<lparr>clientX = 50, clientY = 40\<rparr> smallViewport grabbed)) = 0"
proof -
  have h: "isDragging grabbed"
    by (simp add: grabbed_def handleMouseDown_def)
  have big: "size_w \<le> innerWidth largeViewport" "size_h \<le> innerHeight largeViewport"
    and small: "innerWidth smallViewport < size_w"
    by (simp_all add: largeViewport_def smallViewport_def size_w_def size_h_def)
  have v: "pos (handleMouseMove \<lparr>clientX = 5000, clientY = - 300\<rparr> largeViewport grabbed)
     = \<lparr>px = 1020, py = 0\<rparr>"
    by (simp add: grabbed_def handleMouseDown_def handleMouseMove_def mountAppWindow_def
      largeViewport_def size_w_def size_h_def origin_def Let_def)
  from drag_clamped [OF h, of "\<lparr>clientX = 5000, clientY = - 300\<rparr>" largeViewport] big
  have a: "px (pos (handleMouseMove \<lparr>clientX = 5000, clientY = - 300\<rparr> largeViewport grabbed))
     \<le> innerWidth largeViewport - size_w"
    unfolding Let_def by blast
  from drag_clamped [OF h, of "\<lparr>clientX = 50, clientY = 40\<rparr>" smallViewport] small
  have b: "px (pos (handleMouseMove \<lparr>clientX = 50, clientY = 40\<rparr> smallViewport grabbed)) = 0"
    unfolding Let_def by blast
  from h big small v a b show ?thesis by (intro conjI)
qed

section \<open>Reordering the icon grid\<close>

lemma reassignOrder_orders: "map order_of (reassignOrder xs) = [0..<length xs]"
proof -
  have "order_of \<circ> (\<lambda>(a, i). case a of Some a' \<Rightarrow> Shortcut (a'\<lparr>order := i\<rparr>) | None \<Rightarrow> OrderOnly i)
        = snd"
    by (auto simp: fun_eq_iff split: option.splits)
  then have "map order_of (reassignOrder xs) = map snd (zip xs [0..<length xs])"
    by (simp add: reassignOrder_def)
  then show ?thesis by simp
qed

lemma reassignOrder_length: "length (reassignOrder xs) = length xs"
  by (simp add: reassignOrder_def)

lemma reassignOrder_nth:
  "i < length xs \<Longrightarrow>
     reassignOrder xs ! i =
       (case xs ! i of Some a \<Rightarrow> Shortcut (a\<lparr>order := i\<rparr>) | None \<Rightarrow> OrderOnly i)"
  by (simp add: reassignOrder_def)

lemma handleDrop_orders:
  assumes "handleDrop as targetApp targetIndex st = (st', Some r)"
  shows "map order_of r = [0..<length r]"
proof -
  from assms obtain ys where "r = reassignOrder ys"
    by (auto simp: handleDrop_def Let_def split: if_splits prod.splits)
  then show ?thesis by (simp add: reassignOrder_orders reassignOrder_length)
qed

text \<open>
  C8. Reorder assigns order = index. \<^verbatim>\<open>newApps.map((a, i) => ({ ...a, order: BigInt(i) }))\<close>
  gives every element of every sequence its position as \<^verbatim>\<open>order\<close> and changes nothing
  else of it; so whenever \<^verbatim>\<open>handleDrop\<close> calls \<^verbatim>\<open>onReorder\<close>, the orders of the list it
  passes are \<open>0, 1, ..., n - 1\<close>, each once. In particular, for shortcuts A, B, C with
  orders 0, 1, 2, dragging C (index 2) and dropping it on A (index 0) passes
  C with order 0, A with order 1, B with order 2.
\<close>

theorem reorder_assigns_index:
  "map order_of (reassignOrder xs) = [0..<length xs] \<and>
   (\<forall>i < length xs.
      reassignOrder xs ! i =
        (case xs ! i of Some a \<Rightarrow> Shortcut (a\<lparr>order := i\<rparr>) | None \<Rightarrow> OrderOnly i)) \<and>
   (handleDrop as targetApp targetIndex st = (st', Some r) \<longrightarrow>
      map order_of r = [0..<length r] \<and> distinct (map order_of r) \<and>
      (\<forall>i < length r. order_of (r ! i) = i)) \<and>
   (order A = 0 \<and> order B = 1 \<and> order C = 2 \<and> id_app C \<noteq> id_app A \<and> id_app C \<noteq> [] \<longrightarrow>
      snd (handleDrop [A, B, C] A 0 (handleDragStart C 2 initialIcons)) =
        Some [Shortcut (C\<lparr>order := 0\<rparr>), Shortcut (A\<lparr>order := 1\<rparr>), Shortcut (B\<lparr>order := 2\<rparr>)])"
proof (intro conjI impI allI)
  show "map order_of (reassignOrder xs) = [0..<length xs]" by (rule reassignOrder_orders)
next
  fix i assume "i < length xs"
  then show "reassignOrder xs ! i =
        (case xs ! i of Some a \<Rightarrow> Shortcut (a\<lparr>order := i\<rparr>) | None \<Rightarrow> OrderOnly i)"
    by (rule reassignOrder_nth)
next
  assume h: "handleDrop as targetApp targetIndex st = (st', Some r)"
  then show m: "map order_of r = [0..<length r]" by (rule handleDrop_orders)
  then show "distinct (map order_of r)" by simp
  fix i assume "i < length r"
  then have "map order_of r ! i = i" by (simp only: m nth_upt)
  with \<open>i < length r\<close> show "order_of (r ! i) = i" by simp
next
  assume "order A = 0 \<and> order B = 1 \<and> order C = 2 \<and> id_app C \<noteq> id_app A \<and> id_app C \<noteq> []"
  then show "snd (handleDrop [A, B, C] A 0 (handleDragStart C 2 initialIcons)) =
        Some [Shortcut (C\<lparr>order := 0\<rparr>), Shortcut (A\<lparr>order := 1\<rparr>), Shortcut (B\<lparr>order := 2\<rparr>)]"
    by (simp add: handleDrop_def handleDragStart_def initialIcons_def sortedApps_def
        splice_def spliceStart_def reassignOrder_def Let_def upt_rec)
qed

theorem reorder_assigns_index_witness:
  "order appA = 0 \<and> order appB = 1 \<and> order appC = 2 \<and> id_app appC \<noteq> id_app appA \<and> id_app appC \<noteq> [] \<and>
   snd (handleDrop [appA, appB, appC] appA 0 (handleDragStart appC 2 initialIcons)) =
     Some [Shortcut (shortcut ''c'' ''C'' 0), Shortcut (shortcut ''a'' ''A'' 1),
           Shortcut (shortcut ''b'' ''B'' 2)] \<and>
   map order_of (the (snd (handleDrop [appA, appB, appC] appA 0
     (handleDragStart appC 2 initialIcons)))) = [0, 1, 2]"
proof -
  have h: "order appA = 0 \<and> order appB = 1 \<and> order appC = 2 \<and> id_app appC \<noteq> id_app appA \<and>
      id_app appC \<noteq> []"
    by (simp add: appA_def appB_def appC_def shortcut_def)
  from reorder_assigns_index [of "[]" "[]" appA 0 initialIcons initialIcons "[]" appA appB appC] h
  have r: "snd (handleDrop [appA, appB, appC] appA 0 (handleDragStart appC 2 initialIcons)) =
        Some [Shortcut (appC\<lparr>order := 0\<rparr>), Shortcut (appA\<lparr>order := 1\<rparr>),
              Shortcut (appB\<lparr>order := 2\<rparr>)]"
    by blast
  have e: "appC\<lparr>order := 0\<rparr> = shortcut ''c'' ''C'' 0" "appA\<lparr>order := 1\<rparr> = shortcut ''a'' ''A'' 1"
    "appB\<lparr>order := 2\<rparr> = shortcut ''b'' ''B'' 2"
    by (simp_all add: appA_def appB_def appC_def shortcut_def)
  from h r e show ?thesis by (simp add: shortcut_def)
qed

section \<open>Adding a shortcut in the backend\<close>

text \<open>
  C9 as stated fails: \<^verbatim>\<open>addApp\<close> with an id the caller already has does not fail; it
  returns normally and the stored shortcut is replaced. Here the caller first adds a
  shortcut with id \<open>a\<close> and then another one with the same id.
\<close>

theorem add_overwrites_counterexample:
  "addApp ''alice'' appA emptyBackend = Inr backendWithA \<and>
   lookupApp backendWithA ''alice'' ''a'' = Some appA \<and>
   id_app appA2 = ''a'' \<and>
   \<not> isl (addApp ''alice'' appA2 backendWithA) \<and>
   lookupApp (projr (addApp ''alice'' appA2 backendWithA)) ''alice'' ''a'' = Some appA2 \<and>
   appA2 \<noteq> appA"
  by (simp add: lookupApp_def backendWithA_def emptyBackend_def addApp_def appA_def appA2_def
      shortcut_def Let_def)

text \<open>
  C9, amended. For every caller and every shortcut, \<^verbatim>\<open>addApp\<close> returns normally; afterwards
  the caller's registry maps the shortcut's id to the shortcut (inserted when the id was
  absent, replacing the old value when it was present) and is unchanged at every other id;
  the registries of the other callers and all settings are unchanged.
\<close>

theorem add_upserts:
  "\<exists>s'. addApp caller a s = Inr s' \<and>
        lookupApp s' caller (id_app a) = Some a \<and>
        (\<forall>i. i \<noteq> id_app a \<longrightarrow> lookupApp s' caller i = lookupApp s caller i) \<and>
        (\<forall>c. c \<noteq> caller \<longrightarrow> userApps s' c = userApps s c) \<and>
        userSettings s' = userSettings s"
  by (simp add: addApp_def lookupApp_def Let_def split: option.splits)

theorem add_upserts_witness:
  "addApp ''alice'' appB emptyBackend \<noteq> Inl (Trap ''DuplicateId'') \<and>
   lookupApp (projr (addApp ''alice'' appB backendWithA)) ''alice'' ''b'' = Some appB \<and>
   lookupApp (projr (addApp ''alice'' appB backendWithA)) ''alice'' ''a'' = Some appA \<and>
   lookupApp (projr (addApp ''alice'' appA2 backendWithA)) ''alice'' ''a'' = Some appA2 \<and>
   userApps (projr (addApp ''alice'' appA2 backendWithA)) ''bob'' = None"
proof -
  obtain s1 where s1: "addApp ''alice'' appB backendWithA = Inr s1"
    "lookupApp s1 ''alice'' (id_app appB) = Some appB"
    "\<forall>i. i \<noteq> id_app appB \<longrightarrow> lookupApp s1 ''alice'' i = lookupApp backendWithA ''alice'' i"
    using add_upserts [of "''alice''" appB backendWithA] by blast
  obtain s2 where s2: "addApp ''alice'' appA2 backendWithA = Inr s2"
    "lookupApp s2 ''alice'' (id_app appA2) = Some appA2"
    "\<forall>c. c \<noteq> ''alice'' \<longrightarrow> userApps s2 c = userApps backendWithA c"
    using add_upserts [of "''alice''" appA2 backendWithA] by blast
  have ids: "id_app appB = ''b''" "id_app appA2 = ''a''"
    by (simp_all add: appB_def appA2_def shortcut_def)
  have old: "lookupApp backendWithA ''alice'' ''a'' = Some appA"
    "userApps backendWithA ''bob'' = None"
    by (simp_all add: lookupApp_def backendWithA_def)
  from s1(3) ids old have "lookupApp s1 ''alice'' ''a'' = Some appA" by simp
  moreover from s2(3) old have "userApps s2 ''bob'' = None" by simp
  moreover have "addApp ''alice'' appB emptyBackend \<noteq> Inl (Trap ''DuplicateId'')"
    by (simp add: addApp_def Let_def)
  ultimately show ?thesis using s1 s2 ids by simp
qed

end
